theory Spec2Isabelle
  imports Complex_Main "HOL-Library.Log_Nat"
begin

section \<open>Python numbers used by \<open>generate-icons.py\<close>\<close>

text \<open>
  The script mixes Python's unbounded integers with Python floats (IEEE 754 binary64,
  round to nearest, ties to even).  A finite float is written as a pair \<open>(m, e)\<close> of
  integers that stands for the number \<open>m * 2 ^ e\<close>; all arithmetic below is integer
  arithmetic, so every function can be evaluated on concrete inputs.
\<close>

datatype py_error =
    ZeroDivisionError
  | OverflowError
  | ValueError
  | FileNotFoundError
  | FileExistsError
  | IsADirectoryError
  | NotADirectoryError
  | UnidentifiedImageError
  | SystemExit int
  | InvalidConfiguration

type_synonym pyfloat = "int \<times> int"

text \<open>The real number a float stands for; it is used in statements only.\<close>

definition fval :: "pyfloat \<Rightarrow> real" where
  "fval x = real_of_int (fst x) * 2 powi snd x"

text \<open>
  A bound on the distance between a real number \<open>x\<close> and its nearest float: half a unit in
  the last place of a number with 53 significant bits, or of a subnormal number.
\<close>

definition round_err :: "real \<Rightarrow> real" where
  "round_err x = \<bar>x\<bar> / 2 ^ 53 + 2 powi (- 1075)"

text \<open>\<open>sc x k\<close> is \<open>x * 2 ^ k\<close> for \<open>k \<ge> 0\<close> and \<open>x\<close> otherwise.\<close>

definition sc :: "int \<Rightarrow> int \<Rightarrow> int" where
  "sc x k = x * 2 ^ nat k"

text \<open>The quotient \<open>a / b\<close> (\<open>b > 0\<close>, \<open>a \<ge> 0\<close>) rounded to the nearest integer, ties to even.\<close>

definition round_half_even :: "int \<Rightarrow> int \<Rightarrow> int" where
  "round_half_even a b =
     (let q = a div b; r = a mod b
      in if 2 * r < b then q
         else if b < 2 * r then q + 1
         else if even q then q else q + 1)"

text \<open>
  The positive rational \<open>a / b\<close> rounded to binary64: \<open>lg\<close> is \<open>\<lfloor>log\<^sub>2 (a / b)\<rfloor>\<close>, the
  exponent of the unit in the last place is \<open>lg - 52\<close> (53 significant bits) and never below
  \<open>-1074\<close> (subnormal numbers).
\<close>

definition round_pos :: "int \<Rightarrow> int \<Rightarrow> pyfloat" where
  "round_pos a b =
     (let k = bitlen a - bitlen b;
          lg = (if sc b k \<le> sc a (- k) then k else k - 1);
          e = max (lg - 52) (- 1074)
      in (round_half_even (sc a (- e)) (sc b e), e))"

definition round_double :: "int \<Rightarrow> int \<Rightarrow> pyfloat" where
  "round_double a b =
     (if a = 0 then (0, 0)
      else if 0 < a then round_pos a b
      else (- fst (round_pos (- a) b), snd (round_pos (- a) b)))"

text \<open>A rounded result of magnitude \<open>2 ^ 1024\<close> or more is outside the range of binary64.\<close>

definition out_of_range :: "pyfloat \<Rightarrow> bool" where
  "out_of_range x = (sc (2 ^ 1024) (- snd x) \<le> sc \<bar>fst x\<bar> (snd x))"

text \<open>\<open>a / b\<close> on two Python ints: the correctly rounded quotient.\<close>

definition py_truediv :: "int \<Rightarrow> int \<Rightarrow> py_error + pyfloat" where
  "py_truediv a b =
     (if b = 0 then Inl ZeroDivisionError
      else let r = round_double (a * sgn b) \<bar>b\<bar>
           in if out_of_range r then Inl OverflowError else Inr r)"

text \<open>The conversion of an int operand to float in \<open>int * float\<close>.\<close>

definition py_float :: "int \<Rightarrow> py_error + pyfloat" where
  "py_float a =
     (let r = round_double a 1
      in if out_of_range r then Inl OverflowError else Inr r)"

text \<open>Float multiplication; \<open>None\<close> is an infinite result.\<close>

definition float_mul :: "pyfloat \<Rightarrow> pyfloat \<Rightarrow> pyfloat option" where
  "float_mul x y =
     (let e = snd x + snd y;
          r = round_double (sc (fst x * fst y) e) (sc 1 (- e))
      in if out_of_range r then None else Some r)"

definition float_lt :: "pyfloat \<Rightarrow> pyfloat \<Rightarrow> bool" where
  "float_lt x y = (sc (fst x) (snd x - snd y) < sc (fst y) (snd y - snd x))"

text \<open>\<open>min(x, y)\<close>: the first argument unless the second is smaller.\<close>

definition py_min :: "pyfloat \<Rightarrow> pyfloat \<Rightarrow> pyfloat" where
  "py_min x y = (if float_lt y x then y else x)"

text \<open>\<open>int(x)\<close> on a finite float truncates towards zero.\<close>

definition py_int :: "pyfloat \<Rightarrow> int" where
  "py_int x = sgn (fst x) * (sc \<bar>fst x\<bar> (snd x) div sc 1 (- snd x))"

text \<open>\<open>int(w * ratio)\<close> for an int \<open>w\<close> and a float \<open>ratio\<close>.\<close>

definition int_mul_float :: "int \<Rightarrow> pyfloat \<Rightarrow> py_error + int" where
  "int_mul_float w ratio =
     (case py_float w of
        Inl err \<Rightarrow> Inl err
      | Inr fw \<Rightarrow>
          (case float_mul fw ratio of
             None \<Rightarrow> Inl OverflowError
           | Some p \<Rightarrow> Inr (py_int p)))"

section \<open>The sizes and the scaled dimensions\<close>

definition SIZES :: "int list" where
  "SIZES = [16, 32, 48, 64, 128, 256]"

text \<open>
  Lines 36 to 38 of \<open>resize_with_padding\<close>:
  \<^verbatim>\<open>ratio = min(target_size / img.width, target_size / img.height)\<close>,
  \<^verbatim>\<open>new_width = int(img.width * ratio)\<close>, \<^verbatim>\<open>new_height = int(img.height * ratio)\<close>.
\<close>

definition scale_ratio :: "int \<Rightarrow> int \<Rightarrow> int \<Rightarrow> py_error + pyfloat" where
  "scale_ratio w h target_size =
     (case py_truediv target_size w of
        Inl err \<Rightarrow> Inl err
      | Inr rw \<Rightarrow>
          (case py_truediv target_size h of
             Inl err \<Rightarrow> Inl err
           | Inr rh \<Rightarrow> Inr (py_min rw rh)))"

definition scaled_size :: "int \<Rightarrow> int \<Rightarrow> int \<Rightarrow> py_error + int \<times> int" where
  "scaled_size w h target_size =
     (case scale_ratio w h target_size of
        Inl err \<Rightarrow> Inl err
      | Inr ratio \<Rightarrow>
          (case int_mul_float w ratio of
             Inl err \<Rightarrow> Inl err
           | Inr new_width \<Rightarrow>
               (case int_mul_float h ratio of
                  Inl err \<Rightarrow> Inl err
                | Inr new_height \<Rightarrow> Inr (new_width, new_height))))"

section \<open>Images and the Pillow operations the script calls\<close>

text \<open>
  An image is its size and its pixels, addressed by column \<open>x\<close> and row \<open>y\<close>; only the
  pixels with \<open>0 \<le> x < width\<close> and \<open>0 \<le> y < height\<close> belong to it.
\<close>

record 'p image =
  width :: int
  height :: int
  pixel :: "int \<Rightarrow> int \<Rightarrow> 'p"

type_synonym rgba = "nat \<times> nat \<times> nat \<times> nat"

definition alpha :: "rgba \<Rightarrow> nat" where
  "alpha p = snd (snd (snd p))"

definition transparent :: rgba where
  "transparent = (0, 0, 0, 0)"

text \<open>
  What Pillow computes per pixel is left open: the conversion of a source pixel to RGBA,
  the Lanczos filter (the pixel at \<open>(x, y)\<close> of the image resampled to a given size), the
  blend of a destination pixel with a pasted pixel under the pasted pixel's alpha as mask,
  and the codec (\<open>'c\<close> is the content of a file).
\<close>

record ('p, 'c) pillow =
  to_rgba :: "'p \<Rightarrow> rgba"
  lanczos :: "rgba image \<Rightarrow> int \<Rightarrow> int \<Rightarrow> int \<Rightarrow> int \<Rightarrow> rgba"
  blend :: "rgba \<Rightarrow> rgba \<Rightarrow> rgba"
  decode :: "'c \<Rightarrow> 'p image option"
  encode_png :: "rgba image \<Rightarrow> 'c"

text \<open>\<^verbatim>\<open>img.convert("RGBA")\<close>: same size, every pixel converted.\<close>

definition convert_rgba :: "('p, 'c) pillow \<Rightarrow> 'p image \<Rightarrow> rgba image" where
  "convert_rgba P img =
     \<lparr>width = width img, height = height img,
      pixel = (\<lambda>x y. to_rgba P (pixel img x y))\<rparr>"

text \<open>
  \<^verbatim>\<open>img.resize((new_width, new_height), Image.Resampling.LANCZOS)\<close>: a copy when the size
  does not change; otherwise Pillow raises \<open>ValueError\<close> ("height and width must be > 0")
  unless both requested dimensions are at least 1.
\<close>

definition resize :: "('p, 'c) pillow \<Rightarrow> rgba image \<Rightarrow> int \<Rightarrow> int \<Rightarrow> py_error + rgba image" where
  "resize P img new_width new_height =
     (if width img = new_width \<and> height img = new_height then Inr img
      else if new_width < 1 \<or> new_height < 1 then Inl ValueError
      else Inr \<lparr>width = new_width, height = new_height,
                pixel = lanczos P img new_width new_height\<rparr>)"

text \<open>\<^verbatim>\<open>Image.new("RGBA", (target_size, target_size), (0, 0, 0, 0))\<close>; a negative size is a
  \<open>ValueError\<close>.\<close>

definition new_image :: "int \<Rightarrow> py_error + rgba image" where
  "new_image target_size =
     (if target_size < 0 then Inl ValueError
      else Inr \<lparr>width = target_size, height = target_size,
                pixel = (\<lambda>x y. transparent)\<rparr>)"

text \<open>
  \<^verbatim>\<open>new_img.paste(resized, (x_offset, y_offset), resized)\<close>: the pixels of the box that
  \<open>resized\<close> covers are blended, all others are kept.
\<close>

definition in_box :: "int \<Rightarrow> int \<Rightarrow> int \<Rightarrow> int \<Rightarrow> int \<Rightarrow> int \<Rightarrow> bool" where
  "in_box x_offset y_offset w h x y =
     (x_offset \<le> x \<and> x < x_offset + w \<and> y_offset \<le> y \<and> y < y_offset + h)"

definition paste :: "('p, 'c) pillow \<Rightarrow> rgba image \<Rightarrow> rgba image \<Rightarrow> int \<Rightarrow> int \<Rightarrow> rgba image" where
  "paste P new_img resized x_offset y_offset =
     \<lparr>width = width new_img, height = height new_img,
      pixel = (\<lambda>x y.
        if in_box x_offset y_offset (width resized) (height resized) x y
        then blend P (pixel new_img x y) (pixel resized (x - x_offset) (y - y_offset))
        else pixel new_img x y)\<rparr>"

section \<open>\<open>resize_with_padding\<close>\<close>

text \<open>\<^verbatim>\<open>(target_size - new_width) // 2\<close>; Python's \<open>//\<close> on ints is \<open>div\<close>.\<close>

definition center_offset :: "int \<Rightarrow> int \<Rightarrow> int" where
  "center_offset target_size new_dim = (target_size - new_dim) div 2"

definition resize_with_padding ::
  "('p, 'c) pillow \<Rightarrow> 'p image \<Rightarrow> int \<Rightarrow> py_error + rgba image" where
  "resize_with_padding P img0 target_size =
     (let img = convert_rgba P img0
      in case scaled_size (width img) (height img) target_size of
           Inl err \<Rightarrow> Inl err
         | Inr (new_width, new_height) \<Rightarrow>
             (case resize P img new_width new_height of
                Inl err \<Rightarrow> Inl err
              | Inr resized \<Rightarrow>
                  (case new_image target_size of
                     Inl err \<Rightarrow> Inl err
                   | Inr new_img \<Rightarrow>
                       Inr (paste P new_img resized
                              (center_offset target_size new_width)
                              (center_offset target_size new_height)))))"

section \<open>The file system and \<open>generate_icons\<close>\<close>

text \<open>
  The part of the world the script observes and changes: the regular files with their
  contents, the directories, and the lines printed so far.  A path is the string the script
  passes to the operating system; different spellings of one path are not identified.
\<close>

record 'c world =
  files :: "string \<rightharpoonup> 'c"
  dirs :: "string set"
  stdout :: "string list"

definition print :: "string \<Rightarrow> 'c world \<Rightarrow> 'c world" where
  "print line w = w\<lparr>stdout := stdout w @ [line]\<rparr>"

text \<open>\<^verbatim>\<open>os.path.exists\<close>.\<close>

definition path_exists :: "'c world \<Rightarrow> string \<Rightarrow> bool" where
  "path_exists w p = (p \<in> dom (files w) \<or> p \<in> dirs w)"

text \<open>\<^verbatim>\<open>os.path.join\<close> of two components.\<close>

definition path_join :: "string \<Rightarrow> string \<Rightarrow> string" where
  "path_join a b =
     (if b \<noteq> [] \<and> hd b = CHR ''/'' then b
      else if a = [] \<or> last a = CHR ''/'' then a @ b
      else a @ ''/'' @ b)"

text \<open>The directories above a path: its prefixes that end before a separator.\<close>

definition ancestors :: "string \<Rightarrow> string list" where
  "ancestors p = map (\<lambda>i. take i p) (filter (\<lambda>i. p ! i = CHR ''/'') [1..<length p])"

text \<open>
  \<^verbatim>\<open>os.makedirs(out_dir, exist_ok=True)\<close>: nothing to do for an existing directory;
  otherwise the directory and its missing ancestors are created, unless a regular file is in
  the way.
\<close>

definition makedirs :: "string \<Rightarrow> 'c world \<Rightarrow> py_error + 'c world" where
  "makedirs out_dir w =
     (if out_dir \<in> dirs w then Inr w
      else if out_dir = [] then Inl FileNotFoundError
      else if list_ex (\<lambda>a. a \<in> dom (files w)) (ancestors out_dir) then Inl NotADirectoryError
      else if out_dir \<in> dom (files w) then Inl FileExistsError
      else Inr (w\<lparr>dirs := dirs w \<union> set (ancestors out_dir) \<union> {out_dir}\<rparr>))"

text \<open>\<^verbatim>\<open>Image.open(src_path)\<close> on a path that exists, with the pixel data it loads.\<close>

definition image_open :: "('p, 'c) pillow \<Rightarrow> string \<Rightarrow> 'c world \<Rightarrow> py_error + 'p image" where
  "image_open P src_path w =
     (case files w src_path of
        None \<Rightarrow> Inl IsADirectoryError
      | Some c \<Rightarrow>
          (case decode P c of
             None \<Rightarrow> Inl UnidentifiedImageError
           | Some img \<Rightarrow> Inr img))"

text \<open>\<^verbatim>\<open>square.save(output_path, format="PNG")\<close>: creates or replaces the file.\<close>

definition save :: "('p, 'c) pillow \<Rightarrow> rgba image \<Rightarrow> string \<Rightarrow> 'c world \<Rightarrow> py_error + 'c world" where
  "save P square output_path w =
     (if output_path \<in> dirs w then Inl IsADirectoryError
      else Inr (w\<lparr>files := (files w)(output_path \<mapsto> encode_png P square)\<rparr>))"

text \<open>\<open>str\<close> of an int, as an f-string formats it.\<close>

fun str_nat :: "nat \<Rightarrow> string" where
  "str_nat n =
     (if n < 10 then [char_of (48 + n)]
      else str_nat (n div 10) @ [char_of (48 + n mod 10)])"

definition py_str :: "int \<Rightarrow> string" where
  "py_str i = (if i < 0 then ''-'' @ str_nat (nat (- i)) else str_nat (nat i))"

definition icon_name :: "int \<Rightarrow> string" where
  "icon_name sz = ''icon-'' @ py_str sz @ ''.png''"

text \<open>\<^verbatim>\<open>output_path = os.path.join(out_dir, f"icon-{size}.png")\<close>.\<close>

definition icon_path :: "string \<Rightarrow> int \<Rightarrow> string" where
  "icon_path out_dir sz = path_join out_dir (icon_name sz)"

text \<open>The three symbols the messages start with, as UTF-8 bytes.\<close>

definition cross_mark :: string where
  "cross_mark = [char_of (0xE2 :: nat), char_of (0x9D :: nat), char_of (0x8C :: nat)]"

definition check_mark :: string where
  "check_mark = [char_of (0xE2 :: nat), char_of (0x9C :: nat), char_of (0x85 :: nat)]"

definition party_popper :: string where
  "party_popper =
     [char_of (0xF0 :: nat), char_of (0x9F :: nat), char_of (0x8E :: nat), char_of (0x89 :: nat)]"

text \<open>The body of \<^verbatim>\<open>for size in SIZES\<close>, over the sizes still to do.\<close>

fun icon_loop ::
  "('p, 'c) pillow \<Rightarrow> 'p image \<Rightarrow> string \<Rightarrow> int list \<Rightarrow> 'c world \<Rightarrow> (py_error + unit) \<times> 'c world"
where
  "icon_loop P img out_dir [] w = (Inr (), w)"
| "icon_loop P img out_dir (sz # rest) w =
     (let output_path = icon_path out_dir sz
      in case resize_with_padding P img sz of
           Inl err \<Rightarrow> (Inl err, w)
         | Inr square \<Rightarrow>
             (case save P square output_path w of
                Inl err \<Rightarrow> (Inl err, w)
              | Inr w' \<Rightarrow>
                  icon_loop P img out_dir rest
                    (print (check_mark @ '' Generated '' @ output_path) w')))"

definition generate_icons ::
  "('p, 'c) pillow \<Rightarrow> string \<Rightarrow> string \<Rightarrow> 'c world \<Rightarrow> (py_error + unit) \<times> 'c world" where
  "generate_icons P src_path out_dir w =
     (if \<not> path_exists w src_path
      then (Inl (SystemExit 1),
            print (cross_mark @ '' Source image not found: '' @ src_path) w)
      else case makedirs out_dir w of
             Inl err \<Rightarrow> (Inl err, w)
           | Inr w1 \<Rightarrow>
               (case image_open P src_path w1 of
                  Inl err \<Rightarrow> (Inl err, w1)
                | Inr img \<Rightarrow>
                    (case icon_loop P img out_dir SIZES w1 of
                       (Inl err, w2) \<Rightarrow> (Inl err, w2)
                     | (Inr u, w2) \<Rightarrow>
                         (Inr (),
                          print (party_popper @ '' All icons generated successfully!'') w2))))"

text \<open>The \<^verbatim>\<open>__main__\<close> block; \<open>argv\<close> is \<^verbatim>\<open>sys.argv\<close>.\<close>

definition main :: "('p, 'c) pillow \<Rightarrow> string list \<Rightarrow> 'c world \<Rightarrow> (py_error + unit) \<times> 'c world" where
  "main P argv w =
     (if length argv < 2
      then (Inl (SystemExit 1),
            print ''Usage: python generate_icons.py <source.png> [output_dir]'' w)
      else generate_icons P (argv ! 1) (if 2 < length argv then argv ! 2 else ''icons'') w)"

text \<open>
  The exit status of the interpreter: 0 when the script runs to its end, the argument of
  \<^verbatim>\<open>sys.exit\<close>, and 1 for an exception nobody catches.
\<close>

definition exit_code :: "py_error + unit \<Rightarrow> int" where
  "exit_code r = (case r of Inr u \<Rightarrow> 0 | Inl (SystemExit n) \<Rightarrow> n | Inl err \<Rightarrow> 1)"

section \<open>Where the loop stops\<close>

text \<open>
  Used in statements only.  A size can be handled when its rendering succeeds and its icon
  path is not a directory (\<open>D\<close> is the set of the directories); \<open>steps_done\<close> counts the
  sizes at the front of the list that can be handled, so it is the position of the first
  size that cannot, or the length of the list.
\<close>

definition step_ok :: "('p, 'c) pillow \<Rightarrow> 'p image \<Rightarrow> string \<Rightarrow> string set \<Rightarrow> int \<Rightarrow> bool" where
  "step_ok P img out_dir D sz \<longleftrightarrow>
     \<not> isl (resize_with_padding P img sz) \<and> icon_path out_dir sz \<notin> D"

definition steps_done ::
  "('p, 'c) pillow \<Rightarrow> 'p image \<Rightarrow> string \<Rightarrow> string set \<Rightarrow> int list \<Rightarrow> nat" where
  "steps_done P img out_dir D szs = length (takeWhile (step_ok P img out_dir D) szs)"

section \<open>Concrete inputs\<close>

text \<open>
  One instance of the Pillow parameters, used to run the model: pixels are RGBA already, the
  filter picks the nearest source pixel, a pasted pixel replaces the one below, and a file
  holds the image itself.
\<close>

definition plain_pillow :: "(rgba, rgba image) pillow" where
  "plain_pillow =
     \<lparr>to_rgba = (\<lambda>p. p),
      lanczos = (\<lambda>img nw nh x y. pixel img (x * width img div nw) (y * height img div nh)),
      blend = (\<lambda>below above. above),
      decode = Some,
      encode_png = (\<lambda>img. img)\<rparr>"

definition opaque_image :: "int \<Rightarrow> int \<Rightarrow> rgba image" where
  "opaque_image w h = \<lparr>width = w, height = h, pixel = (\<lambda>x y. (255, 255, 255, 255))\<rparr>"

text \<open>No file at all.\<close>

definition empty_world :: "rgba image world" where
  "empty_world = \<lparr>files = Map.empty, dirs = {}, stdout = []\<rparr>"

text \<open>A logo, and an output directory in which \<open>icon-32.png\<close> is a directory.\<close>

definition blocked_world :: "rgba image world" where
  "blocked_world =
     \<lparr>files = [''logo.png'' \<mapsto> opaque_image 256 256],
      dirs = {''icons'', ''icons/icon-32.png''},
      stdout = []\<rparr>"

text \<open>A logo, and an output directory that holds an old \<open>icon-16.png\<close> and another file.\<close>

definition used_world :: "rgba image world" where
  "used_world =
     \<lparr>files = [''logo.png'' \<mapsto> opaque_image 256 256,
               ''icons/icon-16.png'' \<mapsto> opaque_image 1 1,
               ''icons/notes.txt'' \<mapsto> opaque_image 2 2],
      dirs = {''icons''},
      stdout = []\<rparr>"

text \<open>A logo of 100 x 1 pixels and no output directory.\<close>

definition thin_world :: "rgba image world" where
  "thin_world = \<lparr>files = [''logo.png'' \<mapsto> opaque_image 100 1], dirs = {}, stdout = []\<rparr>"

section \<open>Rounding to the nearest float\<close>

text \<open>
  The distance between the float that \<open>round_double a b\<close> returns and the quotient
  \<open>a / b\<close> is at most \<open>round_err (a / b)\<close>; the helper functions mean what their names say.
\<close>

lemma sc_pos: "0 < x \<Longrightarrow> 0 < sc x k"
  by (simp add: sc_def)

lemma sc_quot:
  assumes "0 < b"
  shows "real_of_int (sc a (- e)) / real_of_int (sc b e) = real_of_int a / real_of_int b * 2 powi (- e)"
proof (cases "0 \<le> e")
  case True
  then have "nat (- e) = 0" by simp
  then show ?thesis using True assms
    by (simp add: sc_def power_int_minus power_int_def field_simps)
next
  case False
  then have "nat e = 0" "0 \<le> - e" by simp_all
  then show ?thesis using assms
    by (simp add: sc_def power_int_def)
qed

lemma round_half_even_int:
  assumes "0 < b"
  shows "2 * \<bar>round_half_even a b * b - a\<bar> \<le> b"
proof -
  define q r where "q = a div b" and "r = a mod b"
  have a: "a = q * b + r" and r: "0 \<le> r" "r < b"
    using assms by (simp_all add: q_def r_def)
  have "round_half_even a b = q \<and> 2 * r \<le> b \<or> round_half_even a b = q + 1 \<and> b \<le> 2 * r"
    unfolding round_half_even_def Let_def q_def [symmetric] r_def [symmetric] by auto
  then show ?thesis
    using r unfolding a by (auto simp: algebra_simps)
qed

lemma round_half_even_err:
  assumes "0 < b"
  shows "\<bar>real_of_int (round_half_even a b) - real_of_int a / real_of_int b\<bar> \<le> 1 / 2"
proof -
  have "real_of_int (2 * \<bar>round_half_even a b * b - a\<bar>) \<le> real_of_int b"
    using round_half_even_int [OF assms, of a] by (simp only: of_int_le_iff)
  then have "2 * \<bar>real_of_int (round_half_even a b) * real_of_int b - real_of_int a\<bar> \<le> real_of_int b"
    by simp
  moreover have "real_of_int (round_half_even a b) - real_of_int a / real_of_int b =
      (real_of_int (round_half_even a b) * real_of_int b - real_of_int a) / real_of_int b"
    using assms by (simp add: field_simps)
  ultimately show ?thesis
    using assms by (simp add: abs_divide field_simps)
qed

lemma round_half_even_nonneg:
  assumes "0 < b" "0 \<le> a"
  shows "0 \<le> round_half_even a b"
proof -
  have "0 \<le> a div b" using assms by (simp add: pos_imp_zdiv_nonneg_iff)
  then show ?thesis by (auto simp: round_half_even_def Let_def)
qed

lemma le_times_powi_minus:
  fixes q :: real
  assumes "1 \<le> q * 2 powi (- k)"
  shows "2 powi k \<le> q"
proof -
  have "(2 powi (- k) :: real) = inverse (2 powi k)" by (rule power_int_minus)
  with assms have "1 \<le> q / 2 powi k" by (simp add: divide_inverse)
  then show ?thesis by (simp add: pos_le_divide_eq)
qed

lemma lg_lower:
  assumes "0 < a" "0 < b"
  defines "k \<equiv> bitlen a - bitlen b"
  defines "lg \<equiv> (if sc b k \<le> sc a (- k) then k else k - 1)"
  shows "2 powi lg \<le> real_of_int a / real_of_int b"
proof (cases "sc b k \<le> sc a (- k)")
  case True
  then have "real_of_int (sc b k) \<le> real_of_int (sc a (- k))" by (simp only: of_int_le_iff)
  moreover have "0 < real_of_int (sc b k)" using sc_pos [OF assms(2)] by simp
  ultimately have "1 \<le> real_of_int (sc a (- k)) / real_of_int (sc b k)" by simp
  then have "1 \<le> real_of_int a / real_of_int b * 2 powi (- k)"
    by (simp only: sc_quot [OF assms(2)])
  then have "2 powi k \<le> real_of_int a / real_of_int b"
    by (rule le_times_powi_minus)
  with True show ?thesis by (simp add: lg_def)
next
  case False
  have ba: "2 ^ nat (bitlen a - 1) \<le> a" and bb: "b < 2 ^ nat (bitlen b)"
    using bitlen_bounds [OF assms(1)] bitlen_bounds [OF assms(2)] by simp_all
  have pa: "1 \<le> bitlen a" and pb: "1 \<le> bitlen b"
    using assms(1,2) by (simp_all add: bitlen_alt_def)
  have "real_of_int b \<le> real_of_int (2 ^ nat (bitlen b))" using bb by (simp only: of_int_le_iff)
  then have b': "real_of_int b \<le> 2 powi (bitlen b)" using pb by (simp add: power_int_def)
  have "real_of_int (2 ^ nat (bitlen a - 1)) \<le> real_of_int a" using ba by (simp only: of_int_le_iff)
  then have a': "2 powi (bitlen a - 1) \<le> real_of_int a" using pa by (simp add: power_int_def)
  have "2 powi (k - 1) = 2 powi (bitlen a - 1) / (2 powi (bitlen b) :: real)"
    by (simp add: k_def power_int_diff)
  also have "\<dots> \<le> real_of_int a / 2 powi (bitlen b)"
    using a' by (simp add: divide_right_mono)
  also have "\<dots> \<le> real_of_int a / real_of_int b"
    using b' assms(1,2) by (simp add: frac_le)
  finally show ?thesis using False by (simp add: lg_def)
qed

lemma round_pos_props:
  assumes "0 < a" "0 < b"
  shows "\<bar>fval (round_pos a b) - real_of_int a / real_of_int b\<bar> \<le> 2 powi (snd (round_pos a b)) / 2"
    and "snd (round_pos a b) = - 1074 \<or>
         2 powi (snd (round_pos a b)) \<le> real_of_int a / real_of_int b / 2 ^ 52"
    and "0 \<le> fst (round_pos a b)"
proof -
  define k where "k = bitlen a - bitlen b"
  define lg where "lg = (if sc b k \<le> sc a (- k) then k else k - 1)"
  define e where "e = max (lg - 52) (- 1074)"
  have rp: "round_pos a b = (round_half_even (sc a (- e)) (sc b e), e)"
    by (simp add: round_pos_def Let_def k_def lg_def e_def)
  have lg: "2 powi lg \<le> real_of_int a / real_of_int b"
    unfolding lg_def k_def by (rule lg_lower [OF assms])
  have bpos: "0 < sc b e" by (rule sc_pos [OF assms(2)])
  have "\<bar>real_of_int (round_half_even (sc a (- e)) (sc b e)) -
      real_of_int a / real_of_int b * 2 powi (- e)\<bar> \<le> 1 / 2"
    using round_half_even_err [OF bpos, of "sc a (- e)"] by (simp only: sc_quot [OF assms(2)])
  then have "\<bar>real_of_int (round_half_even (sc a (- e)) (sc b e)) -
      real_of_int a / real_of_int b * 2 powi (- e)\<bar> * 2 powi e \<le> 1 / 2 * 2 powi e"
    by (rule mult_right_mono) simp
  moreover have "\<bar>real_of_int (round_half_even (sc a (- e)) (sc b e)) -
      real_of_int a / real_of_int b * 2 powi (- e)\<bar> * 2 powi e =
      \<bar>fval (round_pos a b) - real_of_int a / real_of_int b\<bar>"
  proof -
    let ?m = "real_of_int (round_half_even (sc a (- e)) (sc b e))"
    let ?q = "real_of_int a / real_of_int b"
    have eq: "(?m - ?q * 2 powi (- e)) * 2 powi e = ?m * 2 powi e - ?q"
      by (simp add: power_int_minus field_simps)
    have "\<bar>?m - ?q * 2 powi (- e)\<bar> * 2 powi e = \<bar>(?m - ?q * 2 powi (- e)) * 2 powi e\<bar>"
      by (simp add: abs_mult)
    also have "\<dots> = \<bar>?m * 2 powi e - ?q\<bar>" by (simp only: eq)
    also have "\<dots> = \<bar>fval (round_pos a b) - ?q\<bar>" by (simp add: rp fval_def)
    finally show ?thesis .
  qed
  ultimately have "\<bar>fval (round_pos a b) - real_of_int a / real_of_int b\<bar> \<le> 1 / 2 * 2 powi e"
    by (simp only:)
  moreover have "snd (round_pos a b) = e" by (simp add: rp)
  ultimately show "\<bar>fval (round_pos a b) - real_of_int a / real_of_int b\<bar> \<le> 2 powi (snd (round_pos a b)) / 2"
    by simp
  show "snd (round_pos a b) = - 1074 \<or>
         2 powi (snd (round_pos a b)) \<le> real_of_int a / real_of_int b / 2 ^ 52"
  proof (cases "lg - 52 \<le> - 1074")
    case True
    then show ?thesis by (simp add: rp e_def)
  next
    case False
    then have "e = lg - 52" by (simp add: e_def)
    then have "2 powi e = 2 powi lg / (2 ^ 52 :: real)"
      by (simp add: power_int_diff)
    with lg show ?thesis by (simp add: rp divide_right_mono)
  qed
  have "0 \<le> sc a (- e)" using sc_pos [OF assms(1), of "- e"] by simp
  then show "0 \<le> fst (round_pos a b)"
    using round_half_even_nonneg [OF bpos] by (simp add: rp)
qed

lemma powi_pred: "2 powi (n - 1) = 2 powi n / (2 :: real)"
  by (simp add: power_int_diff)

lemma eta_half: "2 powi (- 1074) / 2 = (2 powi (- 1075) :: real)"
proof -
  have "(- 1075 :: int) = - 1074 - 1" by simp
  then have "(2 powi (- 1075) :: real) = 2 powi (- 1074 - 1)" by (simp only:)
  then show ?thesis by (simp only: powi_pred)
qed

lemma round_pos_err:
  assumes "0 < a" "0 < b"
  shows "\<bar>fval (round_pos a b) - real_of_int a / real_of_int b\<bar>
     \<le> real_of_int a / real_of_int b / 2 ^ 53 + 2 powi (- 1075)"
proof -
  define q where "q = real_of_int a / real_of_int b"
  have q: "0 < q" using assms by (simp add: q_def)
  note p = round_pos_props [OF assms, folded q_def]
  from p(2) show ?thesis unfolding q_def [symmetric]
  proof
    assume "snd (round_pos a b) = - 1074"
    with p(1) have "\<bar>fval (round_pos a b) - q\<bar> \<le> 2 powi (- 1075)"
      by (simp only: eta_half)
    moreover have "0 \<le> q / 2 ^ 53" using q by simp
    ultimately show "\<bar>fval (round_pos a b) - q\<bar> \<le> q / 2 ^ 53 + 2 powi (- 1075)" by linarith
  next
    assume "2 powi snd (round_pos a b) \<le> q / 2 ^ 52"
    then have "2 powi snd (round_pos a b) / 2 \<le> q / 2 ^ 52 / 2" by simp
    also have "\<dots> = q / 2 ^ 53" by simp
    finally have "\<bar>fval (round_pos a b) - q\<bar> \<le> q / 2 ^ 53" using p(1) by linarith
    moreover have "0 \<le> (2 powi (- 1075) :: real)" by simp
    ultimately show "\<bar>fval (round_pos a b) - q\<bar> \<le> q / 2 ^ 53 + 2 powi (- 1075)" by linarith
  qed
qed

lemma fval_neg: "fval (- m, e) = - fval (m, e)"
  by (simp add: fval_def)

lemma round_double_err:
  assumes "0 < b"
  shows "\<bar>fval (round_double a b) - real_of_int a / real_of_int b\<bar>
     \<le> \<bar>real_of_int a / real_of_int b\<bar> / 2 ^ 53 + 2 powi (- 1075)"
proof -
  consider "a = 0" | "0 < a" | "a < 0" by linarith
  then show ?thesis
  proof cases
    case 1
    then show ?thesis by (simp add: round_double_def fval_def)
  next
    case 2
    then have "\<bar>real_of_int a / real_of_int b\<bar> = real_of_int a / real_of_int b"
      using assms by simp
    with round_pos_err [OF 2 assms] 2 show ?thesis by (simp add: round_double_def)
  next
    case 3
    then have pos: "0 < - a" by simp
    have rd: "round_double a b = (- fst (round_pos (- a) b), snd (round_pos (- a) b))"
      using 3 by (simp add: round_double_def)
    have "fval (round_double a b) = - fval (round_pos (- a) b)"
      unfolding rd fval_neg by simp
    moreover have "\<bar>real_of_int a / real_of_int b\<bar> = real_of_int (- a) / real_of_int b"
      using 3 assms by (simp add: abs_if field_simps)
    moreover have "real_of_int a / real_of_int b = - (real_of_int (- a) / real_of_int b)" by simp
    ultimately show ?thesis using round_pos_err [OF pos assms] by (simp only:)
  qed
qed

lemma round_double_sign:
  assumes "0 < b"
  shows "0 \<le> a \<Longrightarrow> 0 \<le> fst (round_double a b)" and "a \<le> 0 \<Longrightarrow> fst (round_double a b) \<le> 0"
proof -
  show "0 \<le> fst (round_double a b)" if "0 \<le> a"
    using that round_pos_props(3) [OF _ assms, of a] by (auto simp: round_double_def)
  show "fst (round_double a b) \<le> 0" if "a \<le> 0"
    using that round_pos_props(3) [OF _ assms, of "- a"] by (auto simp: round_double_def)
qed

lemma out_of_range_iff: "out_of_range x \<longleftrightarrow> 2 ^ 1024 \<le> \<bar>fval x\<bar>"
proof -
  obtain m e where x: "x = (m, e)" by (cases x)
  have "out_of_range x \<longleftrightarrow> real_of_int (sc (2 ^ 1024) (- e)) \<le> real_of_int (sc \<bar>m\<bar> e)"
    unfolding out_of_range_def x by (simp only: of_int_le_iff fst_conv snd_conv)
  also have "\<dots> \<longleftrightarrow> real_of_int (sc \<bar>m\<bar> (- (- e))) / real_of_int (sc (2 ^ 1024) (- e)) \<ge> 1"
    using sc_pos [of "2 ^ 1024" "- e"] by simp
  also have "\<dots> \<longleftrightarrow> real_of_int \<bar>m\<bar> / real_of_int (2 ^ 1024) * 2 powi (- (- e)) \<ge> 1"
    by (subst sc_quot) simp_all
  also have "\<dots> \<longleftrightarrow> 2 ^ 1024 \<le> \<bar>fval x\<bar>"
    by (simp add: x fval_def abs_mult field_simps)
  finally show ?thesis .
qed

lemma fval_nonneg: "0 \<le> fst x \<Longrightarrow> 0 \<le> fval x"
  by (simp add: fval_def)

lemma sc_fval: "real_of_int (sc m (- (- e))) / real_of_int (sc 1 (- e)) = fval (m, e)"
  using sc_quot [of 1 m "- e"] by (simp add: fval_def)

lemma py_truediv_Inr:
  assumes "0 < b" "py_truediv a b = Inr r"
  shows "\<bar>fval r - real_of_int a / real_of_int b\<bar>
           \<le> \<bar>real_of_int a / real_of_int b\<bar> / 2 ^ 53 + 2 powi (- 1075)"
    and "0 \<le> a \<Longrightarrow> 0 \<le> fst r" and "a \<le> 0 \<Longrightarrow> fst r \<le> 0" and "\<bar>fval r\<bar> < 2 ^ 1024"
proof -
  have r: "r = round_double a b" and nr: "\<not> out_of_range r"
    using assms by (auto simp: py_truediv_def Let_def split: if_splits)
  show "\<bar>fval r - real_of_int a / real_of_int b\<bar>
           \<le> \<bar>real_of_int a / real_of_int b\<bar> / 2 ^ 53 + 2 powi (- 1075)"
    unfolding r by (rule round_double_err [OF assms(1)])
  show "0 \<le> a \<Longrightarrow> 0 \<le> fst r" "a \<le> 0 \<Longrightarrow> fst r \<le> 0"
    unfolding r by (rule round_double_sign [OF assms(1)]; assumption)+
  show "\<bar>fval r\<bar> < 2 ^ 1024" using nr by (simp add: out_of_range_iff)
qed

lemma py_float_Inr:
  assumes "py_float a = Inr r"
  shows "\<bar>fval r - real_of_int a\<bar> \<le> \<bar>real_of_int a\<bar> / 2 ^ 53 + 2 powi (- 1075)"
    and "0 \<le> a \<Longrightarrow> 0 \<le> fst r" and "\<bar>fval r\<bar> < 2 ^ 1024"
proof -
  have r: "r = round_double a 1" and nr: "\<not> out_of_range r"
    using assms by (auto simp: py_float_def Let_def split: if_splits)
  show "\<bar>fval r - real_of_int a\<bar> \<le> \<bar>real_of_int a\<bar> / 2 ^ 53 + 2 powi (- 1075)"
    unfolding r using round_double_err [of 1 a] by simp
  show "0 \<le> a \<Longrightarrow> 0 \<le> fst r"
    unfolding r by (rule round_double_sign(1) [of 1]) simp_all
  show "\<bar>fval r\<bar> < 2 ^ 1024" using nr by (simp add: out_of_range_iff)
qed

lemma float_mul_Some:
  assumes "float_mul x y = Some p"
  shows "\<bar>fval p - fval x * fval y\<bar> \<le> \<bar>fval x * fval y\<bar> / 2 ^ 53 + 2 powi (- 1075)"
    and "0 \<le> fst x \<Longrightarrow> 0 \<le> fst y \<Longrightarrow> 0 \<le> fst p"
    and "0 \<le> fst x \<Longrightarrow> fst y \<le> 0 \<Longrightarrow> fst p \<le> 0"
proof -
  define e where "e = snd x + snd y"
  have p: "p = round_double (sc (fst x * fst y) e) (sc 1 (- e))"
    using assms by (auto simp: float_mul_def Let_def e_def split: if_splits)
  have b: "0 < sc 1 (- e)" by (rule sc_pos) simp
  have "real_of_int (sc (fst x * fst y) e) / real_of_int (sc 1 (- e)) = fval (fst x * fst y, e)"
    using sc_fval [of "fst x * fst y" e] by simp
  also have "\<dots> = fval x * fval y"
    by (simp add: fval_def e_def power_int_add)
  finally have q: "real_of_int (sc (fst x * fst y) e) / real_of_int (sc 1 (- e)) = fval x * fval y" .
  show "\<bar>fval p - fval x * fval y\<bar> \<le> \<bar>fval x * fval y\<bar> / 2 ^ 53 + 2 powi (- 1075)"
    using round_double_err [OF b, of "sc (fst x * fst y) e"] unfolding q p .
  show "0 \<le> fst p" if "0 \<le> fst x" "0 \<le> fst y"
  proof -
    have "0 \<le> sc (fst x * fst y) e" using that by (simp add: sc_def)
    then show ?thesis unfolding p by (rule round_double_sign(1) [OF b])
  qed
  show "fst p \<le> 0" if "0 \<le> fst x" "fst y \<le> 0"
  proof -
    have "fst x * fst y \<le> 0" using that by (simp add: mult_nonneg_nonpos)
    then have "sc (fst x * fst y) e \<le> 0" by (simp add: sc_def mult_nonpos_nonneg)
    then show ?thesis unfolding p by (rule round_double_sign(2) [OF b])
  qed
qed

lemma float_lt_iff: "float_lt x y \<longleftrightarrow> fval x < fval y"
proof -
  obtain m e where x: "x = (m, e)" by (cases x)
  obtain n f where y: "y = (n, f)" by (cases y)
  have "float_lt x y \<longleftrightarrow> real_of_int (sc m (e - f)) < real_of_int (sc n (f - e))"
    unfolding float_lt_def x y by (simp only: of_int_less_iff fst_conv snd_conv)
  also have "\<dots> \<longleftrightarrow> real_of_int m * 2 powi e < real_of_int n * 2 powi f"
  proof (cases "f \<le> e")
    case True
    then have "nat (f - e) = 0" "0 \<le> e - f" by simp_all
    then have "real_of_int (sc m (e - f)) = real_of_int m * 2 powi (e - f)"
      "real_of_int (sc n (f - e)) = real_of_int n"
      by (simp_all add: sc_def power_int_def)
    moreover have "real_of_int m * 2 powi (e - f) < real_of_int n \<longleftrightarrow>
        real_of_int m * 2 powi (e - f) * 2 powi f < real_of_int n * 2 powi f"
      by simp
    moreover have "real_of_int m * 2 powi (e - f) * 2 powi f = real_of_int m * 2 powi e"
      by (simp add: power_int_diff)
    ultimately show ?thesis by (simp only:)
  next
    case False
    then have "nat (e - f) = 0" "0 \<le> f - e" by simp_all
    then have "real_of_int (sc n (f - e)) = real_of_int n * 2 powi (f - e)"
      "real_of_int (sc m (e - f)) = real_of_int m"
      by (simp_all add: sc_def power_int_def)
    moreover have "real_of_int m < real_of_int n * 2 powi (f - e) \<longleftrightarrow>
        real_of_int m * 2 powi e < real_of_int n * 2 powi (f - e) * 2 powi e"
      by simp
    moreover have "real_of_int n * 2 powi (f - e) * 2 powi e = real_of_int n * 2 powi f"
      by (simp add: power_int_diff)
    ultimately show ?thesis by (simp only:)
  qed
  finally show ?thesis by (simp add: x y fval_def)
qed

lemma fval_py_min: "fval (py_min x y) = min (fval x) (fval y)"
  by (auto simp: py_min_def float_lt_iff min_def)

lemma fst_py_min_nonneg: "0 \<le> fst x \<Longrightarrow> 0 \<le> fst y \<Longrightarrow> 0 \<le> fst (py_min x y)"
  by (simp add: py_min_def)

lemma py_int_floor:
  assumes "0 \<le> fst x"
  shows "py_int x = \<lfloor>fval x\<rfloor>"
proof -
  obtain m e where x: "x = (m, e)" by (cases x)
  have m: "0 \<le> m" using assms by (simp add: x)
  have "sgn m * (sc \<bar>m\<bar> e div sc 1 (- e)) = sc m e div sc 1 (- e)"
    using m by (cases "m = 0") (simp_all add: sc_def)
  then have "py_int x = \<lfloor>real_of_int (sc m e) / real_of_int (sc 1 (- e))\<rfloor>"
    by (simp add: py_int_def x floor_divide_of_int_eq)
  also have "real_of_int (sc m e) / real_of_int (sc 1 (- e)) = fval (m, e)"
    using sc_fval [of m e] by simp
  finally show ?thesis by (simp add: x)
qed

section \<open>The scaled dimensions fit\<close>

lemma scaled_bound:
  fixes W S F R Pv \<eta> T :: real
  assumes W: "1 \<le> W" and S: "0 < S" "S \<le> 2 ^ 51"
    and \<eta>: "0 \<le> \<eta>" "\<eta> \<le> 1 / 2 ^ 110" "\<eta> * (2 * T) \<le> 1 / 2 ^ 50"
    and F: "0 \<le> F" "F \<le> W + W / 2 ^ 53 + \<eta>" "W - W / 2 ^ 53 - \<eta> \<le> F" "F < T"
    and R: "0 \<le> R" "R \<le> S / W + S / W / 2 ^ 53 + \<eta>"
    and P: "Pv \<le> F * R + F * R / 2 ^ 53 + \<eta>"
  shows "Pv < S + 1"
proof -
  define Q where "Q = S / W"
  have WQ: "W * Q = S" using W by (simp add: Q_def)
  have Q: "0 \<le> Q" "Q \<le> 2 ^ 51"
  proof -
    show "0 \<le> Q" using W S by (simp add: Q_def)
    have "S / W \<le> S / 1" using W S by (intro divide_left_mono) simp_all
    then show "Q \<le> 2 ^ 51" using S by (simp add: Q_def)
  qed
  have W2: "W \<le> 2 * T" using F(3,4) W \<eta>(2) by simp
  have \<eta>W: "\<eta> * W \<le> 1 / 2 ^ 50"
  proof -
    have "\<eta> * W \<le> \<eta> * (2 * T)" using W2 \<eta>(1) by (rule mult_left_mono)
    with \<eta>(3) show ?thesis by linarith
  qed
  have \<eta>Q: "\<eta> * Q \<le> 1 / 2 ^ 59"
  proof -
    have "\<eta> * Q \<le> (1 / 2 ^ 110) * 2 ^ 51" using \<eta>(1,2) Q by (intro mult_mono) simp_all
    then show ?thesis by simp
  qed
  have \<eta>\<eta>: "\<eta> * \<eta> \<le> 1 / 2 ^ 110"
  proof -
    have "\<eta> * \<eta> \<le> (1 / 2 ^ 110) * 1" using \<eta>(1,2) by (intro mult_mono) simp_all
    then show ?thesis by simp
  qed
  have "F * R \<le> (W + W / 2 ^ 53 + \<eta>) * (Q + Q / 2 ^ 53 + \<eta>)"
    using F(1,2) R W \<eta>(1) unfolding Q_def [symmetric] by (intro mult_mono) simp_all
  also have "\<dots> = W * Q * ((1 + 1 / 2 ^ 53) * (1 + 1 / 2 ^ 53)) +
      \<eta> * W * (1 + 1 / 2 ^ 53) + \<eta> * Q * (1 + 1 / 2 ^ 53) + \<eta> * \<eta>"
    by (simp add: algebra_simps)
  also have "\<dots> = S * ((1 + 1 / 2 ^ 53) * (1 + 1 / 2 ^ 53)) +
      \<eta> * W * (1 + 1 / 2 ^ 53) + \<eta> * Q * (1 + 1 / 2 ^ 53) + \<eta> * \<eta>"
    by (simp only: WQ)
  finally have FR: "F * R \<le> S * ((1 + 1 / 2 ^ 53) * (1 + 1 / 2 ^ 53)) +
      \<eta> * W * (1 + 1 / 2 ^ 53) + \<eta> * Q * (1 + 1 / 2 ^ 53) + \<eta> * \<eta>" .
  define A1 A2 A3 where "A1 = \<eta> * W * (1 + 1 / 2 ^ 53)"
    and "A2 = \<eta> * Q * (1 + 1 / 2 ^ 53)" and "A3 = \<eta> * \<eta>"
  have a: "A1 \<le> 1 / 2 ^ 50 * 2"
    unfolding A1_def using \<eta>W \<eta>(1) W by (intro mult_mono) simp_all
  have b: "A2 \<le> 1 / 2 ^ 59 * 2"
    unfolding A2_def using \<eta>Q \<eta>(1) Q by (intro mult_mono) simp_all
  have c: "A3 \<le> 1 / 2 ^ 110" unfolding A3_def by (rule \<eta>\<eta>)
  have "F * R \<le> S * ((1 + 1 / 2 ^ 53) * (1 + 1 / 2 ^ 53)) + A1 + A2 + A3"
    using FR by (simp only: A1_def A2_def A3_def)
  then have FR2: "F * R \<le> S + 1 / 2 + 1 / 2 ^ 40"
    using a b c S by simp
  have FR0: "0 \<le> F * R" using F(1) R(1) by simp
  have "F * R / 2 ^ 53 \<le> (S + 1 / 2 + 1 / 2 ^ 40) / 2 ^ 53"
    using FR2 by (intro divide_right_mono) simp_all
  then have "F * R / 2 ^ 53 \<le> 1 / 4 + 1 / 2 ^ 40"
    using S by simp
  with P FR2 \<eta>(2) show ?thesis by simp
qed

lemma powi_neg: "(2::real) powi (- int n) = 1 / 2 ^ n"
  by (simp add: power_int_minus field_simps)

lemma powi_split: "(2::real) powi (- int (n + m)) * 2 ^ n = 1 / 2 ^ m"
  unfolding powi_neg by (simp add: power_add)

lemma eta_facts:
  "0 \<le> (2 powi (- 1075) :: real)"
  "(2 powi (- 1075) :: real) \<le> 1 / 2 ^ 110"
  "(2 powi (- 1075) :: real) * (2 * 2 ^ 1024) \<le> 1 / 2 ^ 50"
proof -
  show "0 \<le> (2 powi (- 1075) :: real)" by simp
  have "(2 powi (- 1075) :: real) \<le> 2 powi (- 110)"
    by (rule power_int_increasing) simp_all
  also have "(2 powi (- 110) :: real) = 1 / 2 ^ 110"
    using powi_neg [of 110] by simp
  finally show "(2 powi (- 1075) :: real) \<le> 1 / 2 ^ 110" .
  have e: "- int (1025 + 50) = - 1075" by simp
  have s: "Suc 1024 = 1025" by simp
  have "(2::real) * 2 ^ 1024 = 2 ^ Suc 1024" by (simp only: power_Suc)
  then have p: "(2::real) * 2 ^ 1024 = 2 ^ 1025" by (simp only: s)
  have "(2 powi (- 1075) :: real) * (2 * 2 ^ 1024) = 1 / 2 ^ 50"
    using powi_split [of 1025 50] by (simp only: e p)
  then show "(2 powi (- 1075) :: real) * (2 * 2 ^ 1024) \<le> 1 / 2 ^ 50" by (simp only: order_refl)
qed

lemma dimension_bound:
  assumes w: "0 < w" and S: "0 < S" "S \<le> 2 ^ 51"
    and fw: "py_float w = Inr fw"
    and r: "0 \<le> fst ratio"
      "fval ratio \<le> real_of_int S / real_of_int w + real_of_int S / real_of_int w / 2 ^ 53
         + 2 powi (- 1075)"
    and p: "float_mul fw ratio = Some p"
  shows "py_int p = \<lfloor>fval p\<rfloor>" and "0 \<le> py_int p" and "py_int p \<le> S"
proof -
  have f0: "0 \<le> fst fw" using py_float_Inr(2) [OF fw] w by simp
  have p0: "0 \<le> fst p" by (rule float_mul_Some(2) [OF p f0 r(1)])
  show pi: "py_int p = \<lfloor>fval p\<rfloor>" by (rule py_int_floor [OF p0])
  show "0 \<le> py_int p" unfolding pi using fval_nonneg [OF p0] by simp
  have W: "1 \<le> real_of_int w" using w by simp
  have aw: "\<bar>real_of_int w\<bar> = real_of_int w" using w by simp
  have F: "fval fw \<le> real_of_int w + real_of_int w / 2 ^ 53 + 2 powi (- 1075)"
    "real_of_int w - real_of_int w / 2 ^ 53 - 2 powi (- 1075) \<le> fval fw"
    using py_float_Inr(1) [OF fw] unfolding aw by linarith+
  have FT: "fval fw < 2 ^ 1024"
    by (rule py_float_Inr(3) [OF fw, unfolded abs_less_iff, THEN conjunct1])
  have FR0: "0 \<le> fval fw * fval ratio"
    using fval_nonneg [OF f0] fval_nonneg [OF r(1)] by simp
  then have "\<bar>fval fw * fval ratio\<bar> = fval fw * fval ratio" by simp
  with float_mul_Some(1) [OF p]
  have P: "fval p \<le> fval fw * fval ratio + fval fw * fval ratio / 2 ^ 53 + 2 powi (- 1075)"
    by linarith
  have "fval p < real_of_int S + 1"
    by (rule scaled_bound [OF W _ _ eta_facts fval_nonneg [OF f0] F FT fval_nonneg [OF r(1)] r(2) P])
       (use S in simp_all)
  then have "fval p < real_of_int (S + 1)" by simp
  then have "\<lfloor>fval p\<rfloor> < S + 1" by (simp only: floor_less_iff)
  then show "py_int p \<le> S" unfolding pi by linarith
qed

lemma scaled_size_Inr:
  assumes "scaled_size w h S = Inr (nw, nh)"
  obtains rw rh fw fh pw ph where
    "py_truediv S w = Inr rw" "py_truediv S h = Inr rh"
    "scale_ratio w h S = Inr (py_min rw rh)"
    "py_float w = Inr fw" "float_mul fw (py_min rw rh) = Some pw" "nw = py_int pw"
    "py_float h = Inr fh" "float_mul fh (py_min rw rh) = Some ph" "nh = py_int ph"
  using assms
  by (auto simp: scaled_size_def scale_ratio_def int_mul_float_def
      split: sum.splits option.splits)

section \<open>The result of \<open>resize_with_padding\<close>\<close>

text \<open>What a successful call went through.\<close>

lemma rwp_Inr:
  assumes "resize_with_padding P img S = Inr out"
  obtains nw nh resized where
    "scaled_size (width img) (height img) S = Inr (nw, nh)"
    "resize P (convert_rgba P img) nw nh = Inr resized"
    "width resized = nw" "height resized = nh"
    "0 \<le> S"
    "out = paste P \<lparr>width = S, height = S, pixel = (\<lambda>x y. transparent)\<rparr> resized
             (center_offset S nw) (center_offset S nh)"
  using assms
  by (auto simp: resize_with_padding_def Let_def new_image_def convert_rgba_def resize_def
      split: sum.splits prod.splits if_splits)

lemma scaled_100_1_16: "scaled_size 100 1 16 = Inr (16, 0)"
  by code_simp

lemma scaled_100_50_64: "scaled_size 100 50 64 = Inr (64, 32)"
  by code_simp

lemma scaled_49_49_16: "scaled_size 49 49 16 = Inr (15, 15)"
  by code_simp

lemma scaled_256_256_16: "scaled_size 256 256 16 = Inr (16, 16)"
  by code_simp

text \<open>
  C1.  The claim: for a source with positive width and height and a size of the fixed list,
  \<open>resize_with_padding\<close> raises nothing, also when a scaled dimension is 0, as for a 100 x 1
  source at size 16.  The code: for that source \<open>new_height = int(1 * 0.16) = 0\<close>, and
  \<open>img.resize((16, 0), ...)\<close> raises \<open>ValueError\<close>.
\<close>

theorem C1_thin_source_raises:
  "resize_with_padding P \<lparr>width = 100, height = 1, pixel = f\<rparr> 16 = Inl ValueError"
  using scaled_100_1_16
  by (simp add: resize_with_padding_def convert_rgba_def resize_def)

text \<open>
  C2.  Every image that \<open>resize_with_padding\<close> returns for the size \<open>S\<close> is \<open>S\<close> pixels wide
  and \<open>S\<close> pixels high.  This holds for every source and every \<open>S\<close>, so in particular for the
  sources with positive dimensions and the six sizes of the list.
\<close>

theorem C2_result_is_square:
  assumes "resize_with_padding P img S = Inr out"
  shows "width out = S \<and> height out = S"
  using assms by (elim rwp_Inr) (simp add: paste_def)

theorem C2_result_is_square_witness:
  "\<exists>out. resize_with_padding plain_pillow (opaque_image 256 256) 16 = Inr out \<and>
         width out = 16 \<and> height out = 16"
proof -
  obtain out where out: "resize_with_padding plain_pillow (opaque_image 256 256) 16 = Inr out"
    using scaled_256_256_16
    by (simp add: resize_with_padding_def convert_rgba_def resize_def new_image_def
        opaque_image_def)
  from C2_result_is_square [OF out] out show ?thesis by simp
qed

text \<open>
  C4.  When \<open>resize_with_padding\<close> returns, the resized image sits at
  \<open>x_offset = \<lfloor>(S - new_width) / 2\<rfloor>\<close>, \<open>y_offset = \<lfloor>(S - new_height) / 2\<rfloor>\<close>: a pixel of
  the result inside that box is the blend of the transparent canvas with the pixel of the
  resized image at the shifted position, any other pixel is the canvas.  On each axis the
  margin before the content and the margin after it differ by at most one pixel.
\<close>

theorem C4_centered:
  assumes "resize_with_padding P img S = Inr out"
      and "scaled_size (width img) (height img) S = Inr (nw, nh)"
  shows "\<exists>resized x_offset y_offset.
           resize P (convert_rgba P img) nw nh = Inr resized \<and>
           x_offset = \<lfloor>real_of_int (S - nw) / 2\<rfloor> \<and>
           y_offset = \<lfloor>real_of_int (S - nh) / 2\<rfloor> \<and>
           (\<forall>x y. pixel out x y =
              (if in_box x_offset y_offset nw nh x y
               then blend P transparent (pixel resized (x - x_offset) (y - y_offset))
               else transparent)) \<and>
           \<bar>(S - nw - x_offset) - x_offset\<bar> \<le> 1 \<and>
           \<bar>(S - nh - y_offset) - y_offset\<bar> \<le> 1"
proof -
  have fl: "\<lfloor>real_of_int k / 2\<rfloor> = k div 2" for k :: int
    using floor_divide_of_int_eq [of k 2] by simp
  from assms(1) show ?thesis
  proof (rule rwp_Inr)
    fix nw' nh' resized
    assume a: "scaled_size (width img) (height img) S = Inr (nw', nh')"
      "resize P (convert_rgba P img) nw' nh' = Inr resized"
      "width resized = nw'" "height resized = nh'"
      "out = paste P \<lparr>width = S, height = S, pixel = (\<lambda>x y. transparent)\<rparr> resized
             (center_offset S nw') (center_offset S nh')"
    with assms(2) have e: "nw' = nw" "nh' = nh" by simp_all
    show ?thesis
      using a unfolding e fl
      by (intro exI [of _ resized] exI [of _ "center_offset S nw"] exI [of _ "center_offset S nh"])
         (auto simp: paste_def center_offset_def)
  qed
qed

theorem C4_centered_witness:
  "\<exists>out. resize_with_padding plain_pillow (opaque_image 100 50) 64 = Inr out \<and>
     pixel out 5 15 = transparent \<and> pixel out 5 16 = (255, 255, 255, 255) \<and>
     \<lfloor>real_of_int (64 - 64) / 2\<rfloor> = 0 \<and> \<lfloor>real_of_int (64 - 32) / 2\<rfloor> = 16"
proof -
  let ?img = "opaque_image 100 50"
  have ss: "scaled_size (width ?img) (height ?img) 64 = Inr (64, 32)"
    by (simp add: opaque_image_def scaled_100_50_64)
  obtain out where out: "resize_with_padding plain_pillow ?img 64 = Inr out"
    using ss by (simp add: resize_with_padding_def convert_rgba_def resize_def new_image_def
        opaque_image_def)
  have r: "resize plain_pillow (convert_rgba plain_pillow ?img) 64 32 =
     Inr \<lparr>width = 64, height = 32,
       pixel = lanczos plain_pillow (convert_rgba plain_pillow ?img) 64 32\<rparr>"
    by (simp add: resize_def convert_rgba_def opaque_image_def)
  have f: "\<lfloor>real_of_int (64 - 64) / 2\<rfloor> = 0" "\<lfloor>real_of_int (64 - 32) / 2\<rfloor> = 16" by simp_all
  from C4_centered [OF out ss] r
  have "\<forall>x y. pixel out x y =
     (if in_box 0 16 64 32 x y
      then blend plain_pillow transparent
        (lanczos plain_pillow (convert_rgba plain_pillow ?img) 64 32 (x - 0) (y - 16))
      else transparent)"
    unfolding f by auto
  then have "pixel out 5 15 = transparent" "pixel out 5 16 = (255, 255, 255, 255)"
    by (simp_all add: in_box_def plain_pillow_def convert_rgba_def opaque_image_def)
  with out f show ?thesis by simp
qed

text \<open>
  C5.  Every pixel of the result outside the box
  \<open>[x_offset, x_offset + new_width) \<times> [y_offset, y_offset + new_height)\<close> has alpha 0.
  The instance below it is the 100 x 50 opaque source at size 64: content 64 x 32 at
  x-offset 0 and y-offset 16, the rows above 16 and from 48 on transparent.
\<close>

theorem C5_padding_transparent:
  assumes "resize_with_padding P img S = Inr out"
      and "scaled_size (width img) (height img) S = Inr (nw, nh)"
      and "\<not> in_box (center_offset S nw) (center_offset S nh) nw nh x y"
  shows "alpha (pixel out x y) = 0"
  using assms by (elim rwp_Inr) (simp add: paste_def alpha_def transparent_def)

theorem C5_padding_transparent_witness:
  "scaled_size 100 50 64 = Inr (64, 32) \<and> center_offset 64 64 = 0 \<and> center_offset 64 32 = 16 \<and>
   (case resize_with_padding plain_pillow (opaque_image 100 50) 64 of
      Inl err \<Rightarrow> False
    | Inr out \<Rightarrow>
        alpha (pixel out 0 0) = 0 \<and> alpha (pixel out 63 15) = 0 \<and>
        alpha (pixel out 0 48) = 0 \<and> alpha (pixel out 63 63) = 0 \<and>
        alpha (pixel out 0 16) = 255 \<and> alpha (pixel out 63 47) = 255)"
proof -
  let ?img = "opaque_image 100 50"
  have ss: "scaled_size (width ?img) (height ?img) 64 = Inr (64, 32)"
    by (simp add: opaque_image_def scaled_100_50_64)
  obtain out where out: "resize_with_padding plain_pillow ?img 64 = Inr out"
    using ss by (simp add: resize_with_padding_def convert_rgba_def resize_def new_image_def
        opaque_image_def)
  have co: "center_offset 64 64 = 0" "center_offset 64 32 = 16"
    by (simp_all add: center_offset_def)
  have t: "alpha (pixel out 0 0) = 0" "alpha (pixel out 63 15) = 0"
    "alpha (pixel out 0 48) = 0" "alpha (pixel out 63 63) = 0"
    by (rule C5_padding_transparent [OF out ss], simp add: co in_box_def)+
  have "out = paste plain_pillow \<lparr>width = 64, height = 64, pixel = (\<lambda>x y. transparent)\<rparr>
      \<lparr>width = 64, height = 32,
       pixel = lanczos plain_pillow (convert_rgba plain_pillow ?img) 64 32\<rparr> 0 16"
    using out ss by (simp add: resize_with_padding_def convert_rgba_def resize_def new_image_def
        opaque_image_def co)
  then have c: "alpha (pixel out 0 16) = 255" "alpha (pixel out 63 47) = 255"
    by (simp_all add: paste_def in_box_def plain_pillow_def convert_rgba_def opaque_image_def
        alpha_def)
  show ?thesis using scaled_100_50_64 co out t c by simp
qed

text \<open>
  C6.  The claim: a square source fills the whole canvas at every size of the list.  The
  code: for a 49 x 49 source at size 16, \<open>16 / 49\<close> rounds down, \<open>49 * (16 / 49)\<close> is
  \<open>15.999999999999998\<close> and \<open>int\<close> makes 15 of it, so the content is 15 x 15 and the last
  row and the last column of the icon are padding.
\<close>

theorem C6_square_49_at_16:
  "scaled_size 49 49 16 = Inr (15, 15) \<and>
   (\<exists>out. resize_with_padding P \<lparr>width = 49, height = 49, pixel = f\<rparr> 16 = Inr out \<and>
      (\<forall>x. pixel out x 15 = transparent) \<and> (\<forall>y. pixel out 15 y = transparent))"
  using scaled_49_49_16
  by (simp add: resize_with_padding_def convert_rgba_def resize_def new_image_def paste_def
      in_box_def center_offset_def)

text \<open>
  C3.  The claim: for every source with positive dimensions and every positive target size
  the scaled dimensions are \<open>\<lfloor>width * ratio\<rfloor>\<close> and \<open>\<lfloor>height * ratio\<rfloor>\<close> with
  \<open>ratio = min (S / width) (S / height)\<close>, and both are at most \<open>S\<close>.  The code computes
  the quotients and the products as floats.  For a 1 x 1 source and \<open>S = 2 ^ 53 + 3\<close> the
  quotient rounds up to \<open>2 ^ 53 + 4\<close>, and so do both scaled dimensions.
\<close>

theorem C3_huge_target_exceeds:
  "scaled_size 1 1 9007199254740995 = Inr (9007199254740996, 9007199254740996) \<and>
   \<not> (9007199254740996 :: int) \<le> 9007199254740995"
proof -
  have "scaled_size 1 1 9007199254740995 = Inr (9007199254740996, 9007199254740996)"
    by code_simp
  then show ?thesis by simp
qed

text \<open>
  C3, amended.  For a source with positive dimensions and a target size \<open>S\<close> with
  \<open>0 < S \<le> 2 ^ 51\<close>: the two quotients \<open>S / width\<close> and \<open>S / height\<close> are rounded to the
  nearest float, \<open>ratio\<close> is the smaller of the two floats, each dimension is converted to
  float and multiplied with \<open>ratio\<close>, the product rounded to the nearest float, and the
  scaled dimension is the floor of that float (truncation, not rounding).  Both scaled
  dimensions lie between 0 and \<open>S\<close>.
\<close>

theorem C3_scaled_size_fits:
  assumes "0 < w" "0 < h" "0 < S" "S \<le> 2 ^ 51"
      and "scaled_size w h S = Inr (new_width, new_height)"
  shows "\<exists>rw rh fw fh pw ph.
      py_truediv S w = Inr rw \<and> py_truediv S h = Inr rh \<and>
      \<bar>fval rw - real_of_int S / real_of_int w\<bar> \<le> round_err (real_of_int S / real_of_int w) \<and>
      \<bar>fval rh - real_of_int S / real_of_int h\<bar> \<le> round_err (real_of_int S / real_of_int h) \<and>
      scale_ratio w h S = Inr (py_min rw rh) \<and>
      fval (py_min rw rh) = min (fval rw) (fval rh) \<and>
      py_float w = Inr fw \<and> float_mul fw (py_min rw rh) = Some pw \<and>
      py_float h = Inr fh \<and> float_mul fh (py_min rw rh) = Some ph \<and>
      \<bar>fval pw - fval fw * fval (py_min rw rh)\<bar> \<le> round_err (fval fw * fval (py_min rw rh)) \<and>
      \<bar>fval ph - fval fh * fval (py_min rw rh)\<bar> \<le> round_err (fval fh * fval (py_min rw rh)) \<and>
      new_width = \<lfloor>fval pw\<rfloor> \<and> new_height = \<lfloor>fval ph\<rfloor> \<and>
      0 \<le> new_width \<and> new_width \<le> S \<and> 0 \<le> new_height \<and> new_height \<le> S"
  using assms(5)
proof (rule scaled_size_Inr)
  fix rw rh fw fh pw ph
  assume a: "py_truediv S w = Inr rw" "py_truediv S h = Inr rh"
    "scale_ratio w h S = Inr (py_min rw rh)"
    "py_float w = Inr fw" "float_mul fw (py_min rw rh) = Some pw" "new_width = py_int pw"
    "py_float h = Inr fh" "float_mul fh (py_min rw rh) = Some ph" "new_height = py_int ph"
  let ?r = "py_min rw rh"
  have qw: "\<bar>real_of_int S / real_of_int w\<bar> = real_of_int S / real_of_int w"
    and qh: "\<bar>real_of_int S / real_of_int h\<bar> = real_of_int S / real_of_int h"
    using assms(1-3) by simp_all
  note ew = py_truediv_Inr(1) [OF assms(1) a(1)]
  note eh = py_truediv_Inr(1) [OF assms(2) a(2)]
  have r0: "0 \<le> fst ?r"
    using py_truediv_Inr(2) [OF assms(1) a(1)] py_truediv_Inr(2) [OF assms(2) a(2)] assms(3)
    by (intro fst_py_min_nonneg) simp_all
  have m: "fval ?r = min (fval rw) (fval rh)" by (rule fval_py_min)
  have rw: "fval ?r \<le> real_of_int S / real_of_int w + real_of_int S / real_of_int w / 2 ^ 53
      + 2 powi (- 1075)"
    using ew m qw by linarith
  have rh: "fval ?r \<le> real_of_int S / real_of_int h + real_of_int S / real_of_int h / 2 ^ 53
      + 2 powi (- 1075)"
    using eh m qh by linarith
  note dw = dimension_bound [OF assms(1,3,4) a(4) r0 rw a(5)]
  note dh = dimension_bound [OF assms(2,3,4) a(7) r0 rh a(8)]
  show ?thesis
  proof (intro exI conjI)
    show "py_truediv S w = Inr rw" by (rule a(1))
    show "py_truediv S h = Inr rh" by (rule a(2))
    show "\<bar>fval rw - real_of_int S / real_of_int w\<bar> \<le> round_err (real_of_int S / real_of_int w)"
      unfolding round_err_def by (rule ew)
    show "\<bar>fval rh - real_of_int S / real_of_int h\<bar> \<le> round_err (real_of_int S / real_of_int h)"
      unfolding round_err_def by (rule eh)
    show "scale_ratio w h S = Inr ?r" by (rule a(3))
    show "fval ?r = min (fval rw) (fval rh)" by (rule m)
    show "py_float w = Inr fw" by (rule a(4))
    show "float_mul fw ?r = Some pw" by (rule a(5))
    show "py_float h = Inr fh" by (rule a(7))
    show "float_mul fh ?r = Some ph" by (rule a(8))
    show "\<bar>fval pw - fval fw * fval ?r\<bar> \<le> round_err (fval fw * fval ?r)"
      unfolding round_err_def by (rule float_mul_Some(1) [OF a(5)])
    show "\<bar>fval ph - fval fh * fval ?r\<bar> \<le> round_err (fval fh * fval ?r)"
      unfolding round_err_def by (rule float_mul_Some(1) [OF a(8)])
    show "new_width = \<lfloor>fval pw\<rfloor>" unfolding a(6) by (rule dw(1))
    show "new_height = \<lfloor>fval ph\<rfloor>" unfolding a(9) by (rule dh(1))
    show "0 \<le> new_width" unfolding a(6) by (rule dw(2))
    show "new_width \<le> S" unfolding a(6) by (rule dw(3))
    show "0 \<le> new_height" unfolding a(9) by (rule dh(2))
    show "new_height \<le> S" unfolding a(9) by (rule dh(3))
  qed
qed

theorem C3_scaled_size_fits_witness:
  "\<exists>rw rh fw fh pw ph.
      py_truediv 16 49 = Inr rw \<and> py_truediv 16 49 = Inr rh \<and>
      \<bar>fval rw - real_of_int 16 / real_of_int 49\<bar> \<le> round_err (real_of_int 16 / real_of_int 49) \<and>
      \<bar>fval rh - real_of_int 16 / real_of_int 49\<bar> \<le> round_err (real_of_int 16 / real_of_int 49) \<and>
      scale_ratio 49 49 16 = Inr (py_min rw rh) \<and>
      fval (py_min rw rh) = min (fval rw) (fval rh) \<and>
      py_float 49 = Inr fw \<and> float_mul fw (py_min rw rh) = Some pw \<and>
      py_float 49 = Inr fh \<and> float_mul fh (py_min rw rh) = Some ph \<and>
      \<bar>fval pw - fval fw * fval (py_min rw rh)\<bar> \<le> round_err (fval fw * fval (py_min rw rh)) \<and>
      \<bar>fval ph - fval fh * fval (py_min rw rh)\<bar> \<le> round_err (fval fh * fval (py_min rw rh)) \<and>
      15 = \<lfloor>fval pw\<rfloor> \<and> 15 = \<lfloor>fval ph\<rfloor> \<and>
      (0 :: int) \<le> 15 \<and> (15 :: int) \<le> 16 \<and> (0 :: int) \<le> 15 \<and> (15 :: int) \<le> 16"
  by (rule C3_scaled_size_fits [of 49 49 16 15 15]) (simp_all add: scaled_49_49_16)

section \<open>A target size that is not positive\<close>

lemma round_double_zero: "round_double 0 b = (0, 0)"
  by (simp add: round_double_def)

lemma not_out_of_range_zero: "\<not> out_of_range (0, 0)"
  by (simp add: out_of_range_def sc_def)

lemma py_truediv_zero: "b \<noteq> 0 \<Longrightarrow> py_truediv 0 b = Inr (0, 0)"
  by (simp add: py_truediv_def round_double_zero not_out_of_range_zero)

lemma py_truediv_by_zero: "py_truediv a 0 = Inl ZeroDivisionError"
  by (simp add: py_truediv_def)

lemma py_truediv_error:
  "py_truediv a b = Inl err \<Longrightarrow> err = OverflowError \<or> err = ZeroDivisionError \<and> b = 0"
  by (auto simp: py_truediv_def Let_def split: if_splits)

lemma float_mul_zero: "float_mul x (0, 0) = Some (0, 0)"
  by (simp add: float_mul_def Let_def sc_def round_double_zero not_out_of_range_zero)

lemma py_int_zero: "py_int (0, 0) = 0"
  by (simp add: py_int_def)

lemma int_mul_float_zero: "int_mul_float w (0, 0) = Inr n \<Longrightarrow> n = 0"
  by (auto simp: int_mul_float_def float_mul_zero py_int_zero split: sum.splits)

lemma int_mul_float_error: "int_mul_float w r = Inl err \<Longrightarrow> err = OverflowError"
  by (auto simp: int_mul_float_def py_float_def Let_def split: sum.splits option.splits if_splits)

lemma scaled_size_zero:
  assumes "scaled_size w h 0 = Inr (nw, nh)"
  shows "nw = 0 \<and> nh = 0 \<and> w \<noteq> 0 \<and> h \<noteq> 0"
proof -
  have w: "w \<noteq> 0" and h: "h \<noteq> 0"
    using assms
    by (auto simp: scaled_size_def scale_ratio_def py_truediv_by_zero split: sum.splits)
  have "scale_ratio w h 0 = Inr (0, 0)"
    using w h by (simp add: scale_ratio_def py_truediv_zero py_min_def)
  with assms w h show ?thesis
    by (auto simp: scaled_size_def split: sum.splits dest: int_mul_float_zero)
qed

lemma scaled_size_error:
  assumes "scaled_size w h S = Inl err"
  shows "err = OverflowError \<or> err = ZeroDivisionError \<and> (w = 0 \<or> h = 0)"
  using assms
  by (auto simp: scaled_size_def scale_ratio_def split: sum.splits
      dest: py_truediv_error int_mul_float_error)

lemma scaled_100_50_m64: "scaled_size 100 50 (- 64) = Inr (- 128, - 64)"
  by code_simp

lemma scaled_1_1_0: "scaled_size 1 1 0 = Inr (0, 0)"
  by code_simp

text \<open>
  C8.  The claim: a target size of 0 or less makes \<open>resize_with_padding\<close> fail with the
  error \<open>InvalidConfiguration\<close>.  The code has no such error and no check of the target
  size: for a 1 x 1 source and size 0 both scaled dimensions are 0 and Pillow's \<open>resize\<close>
  raises \<open>ValueError\<close>.
\<close>

theorem C8_zero_target_value_error:
  "resize_with_padding plain_pillow (opaque_image 1 1) 0 = Inl ValueError \<and>
   ValueError \<noteq> InvalidConfiguration"
  using scaled_1_1_0
  by (simp add: resize_with_padding_def convert_rgba_def resize_def opaque_image_def)

text \<open>
  C8, amended.  For every source, a target size of 0 or less makes \<open>resize_with_padding\<close>
  fail with an error of Python or Pillow: \<open>ValueError\<close> from \<open>resize\<close> or \<open>Image.new\<close>,
  \<open>OverflowError\<close> from the float arithmetic, or \<open>ZeroDivisionError\<close>, the last only for a
  source with a dimension of 0.
\<close>

theorem C8_nonpositive_target_fails:
  assumes "S \<le> 0"
  shows "\<exists>err. resize_with_padding P img S = Inl err \<and>
           (err = ValueError \<or> err = OverflowError \<or> err = ZeroDivisionError) \<and>
           (err = ZeroDivisionError \<longrightarrow> width img = 0 \<or> height img = 0)"
proof (cases "resize_with_padding P img S")
  case (Inr out)
  then have False
  proof (rule rwp_Inr)
    fix nw nh resized
    assume a: "scaled_size (width img) (height img) S = Inr (nw, nh)"
      "resize P (convert_rgba P img) nw nh = Inr resized" "0 \<le> S"
    from a(3) assms have S: "S = 0" by simp
    from scaled_size_zero [OF a(1) [unfolded S]] a(2) show False
      by (auto simp: resize_def convert_rgba_def split: if_splits)
  qed
  then show ?thesis ..
next
  case (Inl err)
  have "err = ValueError \<or> err = OverflowError \<or> err = ZeroDivisionError \<and>
      (width img = 0 \<or> height img = 0)"
    using Inl
    by (auto simp: resize_with_padding_def Let_def convert_rgba_def resize_def new_image_def
        split: sum.splits prod.splits if_splits dest: scaled_size_error)
  with Inl show ?thesis by auto
qed

theorem C8_nonpositive_target_fails_witness:
  "resize_with_padding plain_pillow (opaque_image 100 50) (- 64) = Inl ValueError"
proof -
  have r: "resize_with_padding plain_pillow (opaque_image 100 50) (- 64) = Inl ValueError"
    using scaled_100_50_m64
    by (simp add: resize_with_padding_def convert_rgba_def resize_def opaque_image_def)
  from C8_nonpositive_target_fails [of "- 64" plain_pillow "opaque_image 100 50"] r show ?thesis by simp
qed

section \<open>The loop over the sizes\<close>

text \<open>
  The loop writes the icons in the order of the list and stops at the first size whose
  rendering or saving fails: \<open>k\<close> sizes are done, their files are written, nothing else is
  touched.
\<close>

lemma icon_loop_effect:
  assumes "distinct (map (icon_path out_dir) szs)"
  obtains k where "k \<le> length szs"
    "fst (icon_loop P img out_dir szs w) = Inr () \<longleftrightarrow> k = length szs"
    "dirs (snd (icon_loop P img out_dir szs w)) = dirs w"
    "stdout (snd (icon_loop P img out_dir szs w)) =
       stdout w @ map (\<lambda>sz. check_mark @ '' Generated '' @ icon_path out_dir sz) (take k szs)"
    "\<And>p. p \<notin> icon_path out_dir ` set (take k szs) \<Longrightarrow>
       files (snd (icon_loop P img out_dir szs w)) p = files w p"
    "\<And>sz. sz \<in> set (take k szs) \<Longrightarrow>
       \<exists>sq. resize_with_padding P img sz = Inr sq \<and>
         files (snd (icon_loop P img out_dir szs w)) (icon_path out_dir sz) = Some (encode_png P sq)"
    "\<And>err. fst (icon_loop P img out_dir szs w) = Inl err \<Longrightarrow>
       resize_with_padding P img (szs ! k) = Inl err \<or>
       (icon_path out_dir (szs ! k) \<in> dirs w \<and> err = IsADirectoryError)"
  using assms
proof (induction szs arbitrary: w thesis)
  case Nil
  show ?case by (rule Nil(1) [of 0]) simp_all
next
  case (Cons sz rest)
  let ?path = "icon_path out_dir sz"
  have d: "distinct (map (icon_path out_dir) rest)" and nin: "?path \<notin> icon_path out_dir ` set rest"
    using Cons.prems(2) by auto
  show ?case
  proof (cases "resize_with_padding P img sz")
    case (Inl err)
    show ?thesis by (rule Cons.prems(1) [of 0]) (simp_all add: Inl Let_def)
  next
    case (Inr sq)
    show ?thesis
    proof (cases "?path \<in> dirs w")
      case True
      show ?thesis by (rule Cons.prems(1) [of 0]) (simp_all add: Inr True save_def Let_def)
    next
      case False
      define w1 where "w1 = print (check_mark @ '' Generated '' @ ?path)
         (w\<lparr>files := (files w)(?path \<mapsto> encode_png P sq)\<rparr>)"
      have step: "icon_loop P img out_dir (sz # rest) w = icon_loop P img out_dir rest w1"
        by (simp add: Inr False save_def w1_def Let_def)
      have w1: "dirs w1 = dirs w" "files w1 = (files w)(?path \<mapsto> encode_png P sq)"
        "stdout w1 = stdout w @ [check_mark @ '' Generated '' @ ?path]"
        by (simp_all add: w1_def print_def)
      obtain k where k: "k \<le> length rest"
        "fst (icon_loop P img out_dir rest w1) = Inr () \<longleftrightarrow> k = length rest"
        "dirs (snd (icon_loop P img out_dir rest w1)) = dirs w1"
        "stdout (snd (icon_loop P img out_dir rest w1)) =
           stdout w1 @ map (\<lambda>sz. check_mark @ '' Generated '' @ icon_path out_dir sz) (take k rest)"
        "\<And>p. p \<notin> icon_path out_dir ` set (take k rest) \<Longrightarrow>
           files (snd (icon_loop P img out_dir rest w1)) p = files w1 p"
        "\<And>sz. sz \<in> set (take k rest) \<Longrightarrow>
           \<exists>sq. resize_with_padding P img sz = Inr sq \<and>
             files (snd (icon_loop P img out_dir rest w1)) (icon_path out_dir sz) = Some (encode_png P sq)"
        "\<And>err. fst (icon_loop P img out_dir rest w1) = Inl err \<Longrightarrow>
           resize_with_padding P img (rest ! k) = Inl err \<or>
           (icon_path out_dir (rest ! k) \<in> dirs w1 \<and> err = IsADirectoryError)"
        using Cons.IH [OF _ d, of w1] by blast
      have sub: "set (take k rest) \<subseteq> set rest" by (rule set_take_subset)
      have head: "files (snd (icon_loop P img out_dir rest w1)) ?path = Some (encode_png P sq)"
        using k(5) [of ?path] nin sub by (auto simp: w1)
      show ?thesis
      proof (rule Cons.prems(1) [of "Suc k"])
        show "Suc k \<le> length (sz # rest)" using k(1) by simp
        show "fst (icon_loop P img out_dir (sz # rest) w) = Inr () \<longleftrightarrow> Suc k = length (sz # rest)"
          unfolding step using k(2) by simp
        show "dirs (snd (icon_loop P img out_dir (sz # rest) w)) = dirs w"
          unfolding step using k(3) w1 by simp
        show "stdout (snd (icon_loop P img out_dir (sz # rest) w)) =
           stdout w @ map (\<lambda>sz. check_mark @ '' Generated '' @ icon_path out_dir sz)
             (take (Suc k) (sz # rest))"
          unfolding step using k(4) w1 by simp
        show "files (snd (icon_loop P img out_dir (sz # rest) w)) p = files w p"
          if "p \<notin> icon_path out_dir ` set (take (Suc k) (sz # rest))" for p
          unfolding step using k(5) [of p] that by (auto simp: w1)
        show "\<exists>sq. resize_with_padding P img s = Inr sq \<and>
           files (snd (icon_loop P img out_dir (sz # rest) w)) (icon_path out_dir s) = Some (encode_png P sq)"
          if "s \<in> set (take (Suc k) (sz # rest))" for s
          unfolding step using that k(6) [of s] head Inr by auto
        show "resize_with_padding P img ((sz # rest) ! Suc k) = Inl err \<or>
           (icon_path out_dir ((sz # rest) ! Suc k) \<in> dirs w \<and> err = IsADirectoryError)"
          if "fst (icon_loop P img out_dir (sz # rest) w) = Inl err" for err
          using that k(7) [of err] unfolding step by (simp add: w1)
      qed
    qed
  qed
qed

section \<open>Paths of the icons\<close>

lemma icon_names: "map icon_name SIZES =
  [''icon-16.png'', ''icon-32.png'', ''icon-48.png'', ''icon-64.png'', ''icon-128.png'', ''icon-256.png'']"
  by code_simp

lemma icon_path_prefix: "\<exists>pre. \<forall>sz. icon_path out_dir sz = pre @ icon_name sz"
proof -
  have "icon_name sz \<noteq> [] \<and> hd (icon_name sz) \<noteq> CHR ''/''" for sz
    by (simp add: icon_name_def)
  then show ?thesis
    by (cases "out_dir = [] \<or> last out_dir = CHR ''/''")
      (auto simp: icon_path_def path_join_def intro: exI [of _ out_dir] exI [of _ "out_dir @ ''/''"])
qed

lemma distinct_icon_paths: "distinct (map (icon_path out_dir) SIZES)"
proof -
  obtain pre where pre: "\<And>sz. icon_path out_dir sz = pre @ icon_name sz"
    using icon_path_prefix by blast
  have "map (icon_path out_dir) SIZES = map ((@) pre) (map icon_name SIZES)"
    by (simp add: pre)
  moreover have "distinct (map icon_name SIZES)"
    unfolding icon_names by simp
  ultimately show ?thesis
    by (simp add: distinct_map inj_on_def del: map_map)
qed

lemma icons_paths: "map (icon_path ''icons'') SIZES =
  [''icons/icon-16.png'', ''icons/icon-32.png'', ''icons/icon-48.png'', ''icons/icon-64.png'',
   ''icons/icon-128.png'', ''icons/icon-256.png'']"
  by code_simp

section \<open>Errors and effects of a run\<close>

lemma rwp_errors:
  "resize_with_padding P img S = Inl err \<Longrightarrow> err \<in> {ZeroDivisionError, OverflowError, ValueError}"
  by (auto simp: resize_with_padding_def Let_def scaled_size_def scale_ratio_def py_truediv_def
      int_mul_float_def py_float_def resize_def new_image_def
      split: sum.splits prod.splits if_splits option.splits)

lemma makedirs_Inr:
  assumes "makedirs out_dir w = Inr w1"
  shows "files w1 = files w" "stdout w1 = stdout w" "dirs w \<subseteq> dirs w1" "out_dir \<in> dirs w1"
  using assms by (auto simp: makedirs_def split: if_splits)

lemma makedirs_Inl:
  assumes "makedirs out_dir w = Inl err"
  shows "err \<in> {FileNotFoundError, NotADirectoryError, FileExistsError}"
  using assms by (auto simp: makedirs_def split: if_splits)

lemma image_open_Inl:
  assumes "image_open P src_path w = Inl err"
  shows "err \<in> {IsADirectoryError, UnidentifiedImageError}"
  using assms by (auto simp: image_open_def split: option.splits)

lemma exit_code_simps:
  "exit_code (Inr u) = 0" "exit_code (Inl (SystemExit n)) = n"
  "exit_code (Inl ZeroDivisionError) = 1" "exit_code (Inl OverflowError) = 1"
  "exit_code (Inl ValueError) = 1" "exit_code (Inl FileNotFoundError) = 1"
  "exit_code (Inl FileExistsError) = 1" "exit_code (Inl IsADirectoryError) = 1"
  "exit_code (Inl NotADirectoryError) = 1" "exit_code (Inl UnidentifiedImageError) = 1"
  by (simp_all add: exit_code_def)

lemma makedirs_dirs:
  assumes "makedirs out_dir w = Inr w1"
  shows "dirs w1 = (if out_dir \<in> dirs w then dirs w
                    else dirs w \<union> set (ancestors out_dir) \<union> {out_dir})"
  using assms by (auto simp: makedirs_def split: if_splits)

text \<open>The loop in closed form: what \<open>steps_done\<close> sizes leave behind.\<close>

lemma steps_done_Nil: "steps_done P img out_dir D [] = 0"
  by (simp add: steps_done_def)

lemma steps_done_Cons:
  "steps_done P img out_dir D (sz # rest) =
     (if step_ok P img out_dir D sz then Suc (steps_done P img out_dir D rest) else 0)"
  by (simp add: steps_done_def)

lemma steps_done_le: "steps_done P img out_dir D szs \<le> length szs"
  by (simp add: steps_done_def length_takeWhile_le)

lemma icon_loop_stop:
  assumes "\<not> step_ok P img out_dir (dirs w) sz"
  shows "icon_loop P img out_dir (sz # rest) w =
     (if isl (resize_with_padding P img sz)
      then Inl (projl (resize_with_padding P img sz)) else Inl IsADirectoryError, w)"
  using assms
  by (cases "resize_with_padding P img sz") (simp_all add: step_ok_def save_def Let_def)

lemma icon_loop_go:
  assumes "step_ok P img out_dir (dirs w) sz"
  shows "icon_loop P img out_dir (sz # rest) w =
     icon_loop P img out_dir rest
       (print (check_mark @ '' Generated '' @ icon_path out_dir sz)
          (w\<lparr>files := (files w)(icon_path out_dir sz \<mapsto>
                encode_png P (projr (resize_with_padding P img sz)))\<rparr>))"
  using assms
  by (cases "resize_with_padding P img sz") (simp_all add: step_ok_def save_def Let_def)

lemma icon_loop_closed:
  assumes "distinct (map (icon_path out_dir) szs)"
  shows "fst (icon_loop P img out_dir szs w) =
           (if steps_done P img out_dir (dirs w) szs = length szs then Inr ()
            else if isl (resize_with_padding P img (szs ! steps_done P img out_dir (dirs w) szs))
              then Inl (projl (resize_with_padding P img (szs ! steps_done P img out_dir (dirs w) szs)))
              else Inl IsADirectoryError) \<and>
         dirs (snd (icon_loop P img out_dir szs w)) = dirs w \<and>
         stdout (snd (icon_loop P img out_dir szs w)) =
           stdout w @ map (\<lambda>sz. check_mark @ '' Generated '' @ icon_path out_dir sz)
             (take (steps_done P img out_dir (dirs w) szs) szs) \<and>
         (\<forall>sz\<in>set (take (steps_done P img out_dir (dirs w) szs) szs).
            files (snd (icon_loop P img out_dir szs w)) (icon_path out_dir sz) =
              Some (encode_png P (projr (resize_with_padding P img sz)))) \<and>
         (\<forall>p. p \<notin> icon_path out_dir ` set (take (steps_done P img out_dir (dirs w) szs) szs) \<longrightarrow>
            files (snd (icon_loop P img out_dir szs w)) p = files w p)"
  using assms
proof (induction szs arbitrary: w)
  case Nil
  show ?case by (simp add: steps_done_Nil)
next
  case (Cons sz rest)
  show ?case
  proof (cases "step_ok P img out_dir (dirs w) sz")
    case False
    show ?thesis
      unfolding icon_loop_stop [OF False] using False by (simp add: steps_done_Cons)
  next
    case True
    define w1 where "w1 = print (check_mark @ '' Generated '' @ icon_path out_dir sz)
          (w\<lparr>files := (files w)(icon_path out_dir sz \<mapsto>
                encode_png P (projr (resize_with_padding P img sz)))\<rparr>)"
    have step: "icon_loop P img out_dir (sz # rest) w = icon_loop P img out_dir rest w1"
      unfolding w1_def by (rule icon_loop_go [OF True])
    have w1: "dirs w1 = dirs w"
      "files w1 = (files w)(icon_path out_dir sz \<mapsto>
                encode_png P (projr (resize_with_padding P img sz)))"
      "stdout w1 = stdout w @ [check_mark @ '' Generated '' @ icon_path out_dir sz]"
      by (simp_all add: w1_def print_def)
    have d: "distinct (map (icon_path out_dir) rest)"
      and nin: "icon_path out_dir sz \<notin> icon_path out_dir ` set rest"
      using Cons.prems by auto
    define k where "k = steps_done P img out_dir (dirs w) rest"
    have sd: "steps_done P img out_dir (dirs w) (sz # rest) = Suc k"
      using True by (simp add: steps_done_Cons k_def)
    note IH = Cons.IH [OF d, of w1, unfolded w1(1), folded k_def]
    have sub: "set (take k rest) \<subseteq> set rest" by (rule set_take_subset)
    then have nin': "icon_path out_dir sz \<notin> icon_path out_dir ` set (take k rest)"
      using nin by auto
    have head: "files (snd (icon_loop P img out_dir rest w1)) (icon_path out_dir sz) =
        Some (encode_png P (projr (resize_with_padding P img sz)))"
      using IH nin' by (simp add: w1(2))
    show ?thesis
      unfolding step sd using IH head by (auto simp: w1)
  qed
qed

section \<open>Runs on the concrete worlds\<close>

lemma scaled_logo:
  "scaled_size 256 256 16 = Inr (16, 16)" "scaled_size 256 256 32 = Inr (32, 32)"
  "scaled_size 256 256 48 = Inr (48, 48)" "scaled_size 256 256 64 = Inr (64, 64)"
  "scaled_size 256 256 128 = Inr (128, 128)" "scaled_size 256 256 256 = Inr (256, 256)"
  by code_simp+

lemma render_logo:
  assumes "sz \<in> set SIZES"
  shows "\<exists>sq. resize_with_padding plain_pillow (opaque_image 256 256) sz = Inr sq"
  using assms scaled_logo
  by (auto simp: SIZES_def resize_with_padding_def convert_rgba_def resize_def new_image_def
      opaque_image_def)

lemma blocked_run:
  "\<exists>sq16. resize_with_padding plain_pillow (opaque_image 256 256) 16 = Inr sq16 \<and>
     generate_icons plain_pillow ''logo.png'' ''icons'' blocked_world =
      (Inl IsADirectoryError,
       print (check_mark @ '' Generated '' @ ''icons/icon-16.png'')
         (blocked_world\<lparr>files := (files blocked_world)(''icons/icon-16.png'' \<mapsto> encode_png plain_pillow sq16)\<rparr>))"
proof -
  let ?img = "opaque_image 256 256"
  obtain sq16 sq32 where sq:
    "resize_with_padding plain_pillow ?img 16 = Inr sq16"
    "resize_with_padding plain_pillow ?img 32 = Inr sq32"
    using render_logo [of 16] render_logo [of 32] by (auto simp: SIZES_def)
  have p: "icon_path ''icons'' 16 = ''icons/icon-16.png''"
    "icon_path ''icons'' 32 = ''icons/icon-32.png''"
    using icons_paths by (simp_all add: SIZES_def)
  have m: "makedirs ''icons'' blocked_world = Inr blocked_world"
    by (simp add: makedirs_def blocked_world_def)
  have e: "path_exists blocked_world ''logo.png''"
    by (simp add: path_exists_def blocked_world_def)
  have i: "image_open plain_pillow ''logo.png'' blocked_world = Inr ?img"
    by (simp add: image_open_def blocked_world_def plain_pillow_def)
  have l: "icon_loop plain_pillow ?img ''icons'' SIZES blocked_world =
      (Inl IsADirectoryError,
       print (check_mark @ '' Generated '' @ ''icons/icon-16.png'')
         (blocked_world\<lparr>files := (files blocked_world)(''icons/icon-16.png'' \<mapsto> encode_png plain_pillow sq16)\<rparr>))"
    by (simp add: SIZES_def sq p save_def Let_def print_def blocked_world_def)
  show ?thesis
    using sq(1) by (simp add: generate_icons_def e m i l)
qed

section \<open>Claims about a run\<close>

text \<open>
  C7.  When the source path does not exist, \<open>generate_icons\<close> prints the "Source image not
  found" line and leaves through \<^verbatim>\<open>sys.exit(1)\<close> before anything else happens: the exit
  status of the program is 1, and the files and the directories are what they were, so no
  output directory is created and no file is written.
\<close>

theorem C7_missing_source:
  assumes "\<not> path_exists w src_path"
  shows "generate_icons P src_path out_dir w =
           (Inl (SystemExit 1), print (cross_mark @ '' Source image not found: '' @ src_path) w) \<and>
         exit_code (fst (main P (prog # src_path # rest) w)) = 1 \<and>
         files (snd (main P (prog # src_path # rest) w)) = files w \<and>
         dirs (snd (main P (prog # src_path # rest) w)) = dirs w \<and>
         stdout (snd (main P (prog # src_path # rest) w)) =
           stdout w @ [cross_mark @ '' Source image not found: '' @ src_path]"
  using assms by (simp add: generate_icons_def main_def exit_code_def print_def)

theorem C7_missing_source_witness:
  "generate_icons plain_pillow ''nope.png'' ''icons'' empty_world =
     (Inl (SystemExit 1),
      \<lparr>files = Map.empty, dirs = {},
       stdout = [cross_mark @ '' Source image not found: nope.png'']\<rparr>) \<and>
   exit_code (fst (main plain_pillow [''generate-icons.py'', ''nope.png''] empty_world)) = 1 \<and>
   dirs (snd (main plain_pillow [''generate-icons.py'', ''nope.png''] empty_world)) = {}"
proof -
  have "\<not> path_exists empty_world ''nope.png''"
    by (simp add: path_exists_def empty_world_def)
  from C7_missing_source [OF this, of plain_pillow "''icons''" "''generate-icons.py''" "[]"]
  show ?thesis by (simp add: empty_world_def print_def)
qed

text \<open>
  C9.  The claim: a run writes either all six icons or none that stays.  The code writes
  them one after the other and removes nothing when it stops.  In \<open>blocked_world\<close> the run
  saves \<open>icon-16.png\<close>, fails on \<open>icon-32.png\<close> with \<open>IsADirectoryError\<close> and ends with
  status 1, with \<open>icon-16.png\<close> on disk and \<open>icon-48.png\<close> missing.
\<close>

theorem C9_partial_run:
  "fst (generate_icons plain_pillow ''logo.png'' ''icons'' blocked_world) = Inl IsADirectoryError \<and>
   exit_code (fst (generate_icons plain_pillow ''logo.png'' ''icons'' blocked_world)) = 1 \<and>
   icon_path ''icons'' 16 = ''icons/icon-16.png'' \<and>
   icon_path ''icons'' 48 = ''icons/icon-48.png'' \<and>
   files blocked_world ''icons/icon-16.png'' = None \<and>
   files (snd (generate_icons plain_pillow ''logo.png'' ''icons'' blocked_world))
     ''icons/icon-16.png'' \<noteq> None \<and>
   files (snd (generate_icons plain_pillow ''logo.png'' ''icons'' blocked_world))
     ''icons/icon-48.png'' = None"
proof -
  have p: "icon_path ''icons'' 16 = ''icons/icon-16.png''"
    "icon_path ''icons'' 48 = ''icons/icon-48.png''"
    using icons_paths by (simp_all add: SIZES_def)
  from blocked_run obtain sq16 where
    run: "generate_icons plain_pillow ''logo.png'' ''icons'' blocked_world =
      (Inl IsADirectoryError,
       print (check_mark @ '' Generated '' @ ''icons/icon-16.png'')
         (blocked_world\<lparr>files := (files blocked_world)(''icons/icon-16.png'' \<mapsto> encode_png plain_pillow sq16)\<rparr>))"
    by blast
  show ?thesis
    unfolding run using p by (simp add: exit_code_def print_def blocked_world_def)
qed

text \<open>
  C9, amended.  Every run is one of four kinds.  The source path is missing: the run prints
  the not-found line and exits with status 1, nothing else changes.  The output directory
  cannot be made: the run fails and nothing changes.  The source cannot be opened: the run
  fails and only the output directory, with its missing ancestors, has been added.
  Otherwise the loop runs; let \<open>k\<close> be the number of sizes at the front of the list whose
  rendering succeeds and whose icon path is not a directory.  The run ends normally, with
  status 0, exactly when \<open>k\<close> is 6; otherwise it ends with status 1 and the error of the
  step at position \<open>k\<close>, the error of the rendering or \<open>IsADirectoryError\<close>.  In both cases
  the icons of the first \<open>k\<close> sizes hold their rendered content, every other file holds
  what it held before, the only directories added are the output directory and its missing
  ancestors, and the lines printed are the \<open>k\<close> "Generated" lines and, after six of them,
  the final line.
\<close>

theorem C9_prefix_persisted:
  "(\<not> path_exists w src_path \<longrightarrow>
      generate_icons P src_path out_dir w =
        (Inl (SystemExit 1), print (cross_mark @ '' Source image not found: '' @ src_path) w)) \<and>
   (\<forall>err. path_exists w src_path \<and> makedirs out_dir w = Inl err \<longrightarrow>
      generate_icons P src_path out_dir w = (Inl err, w) \<and> exit_code (Inl err) = 1) \<and>
   (\<forall>w1 err. path_exists w src_path \<and> makedirs out_dir w = Inr w1 \<and>
        image_open P src_path w1 = Inl err \<longrightarrow>
      generate_icons P src_path out_dir w = (Inl err, w1) \<and> exit_code (Inl err) = 1 \<and>
      files w1 = files w \<and> stdout w1 = stdout w \<and>
      dirs w1 = (if out_dir \<in> dirs w then dirs w
                 else dirs w \<union> set (ancestors out_dir) \<union> {out_dir})) \<and>
   (\<forall>w1 img. path_exists w src_path \<and> makedirs out_dir w = Inr w1 \<and>
        image_open P src_path w1 = Inr img \<longrightarrow>
      (let run = generate_icons P src_path out_dir w;
           k = steps_done P img out_dir (dirs w1) SIZES
       in fst run =
            (if k = length SIZES then Inr ()
             else if isl (resize_with_padding P img (SIZES ! k))
               then Inl (projl (resize_with_padding P img (SIZES ! k)))
               else Inl IsADirectoryError) \<and>
          exit_code (fst run) = (if k = length SIZES then 0 else 1) \<and>
          dirs (snd run) = (if out_dir \<in> dirs w then dirs w
                            else dirs w \<union> set (ancestors out_dir) \<union> {out_dir}) \<and>
          stdout (snd run) =
            stdout w @
            map (\<lambda>sz. check_mark @ '' Generated '' @ icon_path out_dir sz) (take k SIZES) @
            (if k = length SIZES then [party_popper @ '' All icons generated successfully!'']
             else []) \<and>
          (\<forall>sz\<in>set (take k SIZES).
             files (snd run) (icon_path out_dir sz) =
               Some (encode_png P (projr (resize_with_padding P img sz)))) \<and>
          (\<forall>p. p \<notin> icon_path out_dir ` set (take k SIZES) \<longrightarrow>
             files (snd run) p = files w p)))"
proof (intro conjI allI impI)
  assume "\<not> path_exists w src_path"
  then show "generate_icons P src_path out_dir w =
      (Inl (SystemExit 1), print (cross_mark @ '' Source image not found: '' @ src_path) w)"
    by (simp add: generate_icons_def)
next
  fix err
  assume a: "path_exists w src_path \<and> makedirs out_dir w = Inl err"
  then show "generate_icons P src_path out_dir w = (Inl err, w)"
    by (simp add: generate_icons_def)
  from a makedirs_Inl [of out_dir w err] show "exit_code (Inl err) = 1"
    by (auto simp: exit_code_simps)
next
  fix w1 err
  assume a: "path_exists w src_path \<and> makedirs out_dir w = Inr w1 \<and>
      image_open P src_path w1 = Inl err"
  then show "generate_icons P src_path out_dir w = (Inl err, w1)"
    by (simp add: generate_icons_def)
  from a image_open_Inl [of P src_path w1 err] show "exit_code (Inl err) = 1"
    by (auto simp: exit_code_simps)
  from a makedirs_Inr [of out_dir w w1] show "files w1 = files w" "stdout w1 = stdout w"
    by simp_all
  from a show "dirs w1 = (if out_dir \<in> dirs w then dirs w
                 else dirs w \<union> set (ancestors out_dir) \<union> {out_dir})"
    by (intro makedirs_dirs) simp
next
  fix w1 img
  assume a: "path_exists w src_path \<and> makedirs out_dir w = Inr w1 \<and>
      image_open P src_path w1 = Inr img"
  define k where "k = steps_done P img out_dir (dirs w1) SIZES"
  let ?loop = "icon_loop P img out_dir SIZES w1"
  let ?err = "if isl (resize_with_padding P img (SIZES ! k))
               then projl (resize_with_padding P img (SIZES ! k))
               else IsADirectoryError"
  note c = icon_loop_closed [OF distinct_icon_paths, where out_dir = out_dir and P = P and img = img and w = w1, folded k_def]
  note m = makedirs_Inr [of out_dir w w1] makedirs_dirs [of out_dir w w1]
  have kle: "k \<le> length SIZES" unfolding k_def by (rule steps_done_le)
  have run: "generate_icons P src_path out_dir w =
      (if k = length SIZES
       then (Inr (), print (party_popper @ '' All icons generated successfully!'') (snd ?loop))
       else (Inl ?err, snd ?loop))"
    using a c by (cases ?loop) (auto simp: generate_icons_def)
  have ec: "exit_code (Inl ?err) = 1" if "k \<noteq> length SIZES"
  proof (cases "resize_with_padding P img (SIZES ! k)")
    case (Inl e)
    with rwp_errors [OF Inl] show ?thesis by (auto simp: exit_code_simps)
  next
    case (Inr sq)
    then show ?thesis by (simp add: exit_code_simps)
  qed
  show "let run = generate_icons P src_path out_dir w;
           k = steps_done P img out_dir (dirs w1) SIZES
       in fst run =
            (if k = length SIZES then Inr ()
             else if isl (resize_with_padding P img (SIZES ! k))
               then Inl (projl (resize_with_padding P img (SIZES ! k)))
               else Inl IsADirectoryError) \<and>
          exit_code (fst run) = (if k = length SIZES then 0 else 1) \<and>
          dirs (snd run) = (if out_dir \<in> dirs w then dirs w
                            else dirs w \<union> set (ancestors out_dir) \<union> {out_dir}) \<and>
          stdout (snd run) =
            stdout w @
            map (\<lambda>sz. check_mark @ '' Generated '' @ icon_path out_dir sz) (take k SIZES) @
            (if k = length SIZES then [party_popper @ '' All icons generated successfully!'']
             else []) \<and>
          (\<forall>sz\<in>set (take k SIZES).
             files (snd run) (icon_path out_dir sz) =
               Some (encode_png P (projr (resize_with_padding P img sz)))) \<and>
          (\<forall>p. p \<notin> icon_path out_dir ` set (take k SIZES) \<longrightarrow>
             files (snd run) p = files w p)"
    unfolding Let_def k_def [symmetric] run
    using a c m ec by (auto simp: print_def exit_code_simps)
qed

lemma ancestors_icons: "ancestors ''icons'' = []"
  by code_simp

lemma ancestors_logo: "ancestors ''logo.png'' = []"
  by code_simp

theorem C9_prefix_persisted_witness:
  "fst (generate_icons plain_pillow ''logo.png'' ''icons'' blocked_world) = Inl IsADirectoryError \<and>
   exit_code (fst (generate_icons plain_pillow ''logo.png'' ''icons'' blocked_world)) = 1 \<and>
   dirs (snd (generate_icons plain_pillow ''logo.png'' ''icons'' blocked_world)) =
     {''icons'', ''icons/icon-32.png''} \<and>
   stdout (snd (generate_icons plain_pillow ''logo.png'' ''icons'' blocked_world)) =
     [check_mark @ '' Generated icons/icon-16.png''] \<and>
   files blocked_world ''icons/icon-16.png'' = None \<and>
   map_option width
     (files (snd (generate_icons plain_pillow ''logo.png'' ''icons'' blocked_world))
        ''icons/icon-16.png'') = Some 16 \<and>
   files (snd (generate_icons plain_pillow ''logo.png'' ''icons'' blocked_world))
     ''icons/icon-48.png'' = None \<and>
   files (snd (generate_icons plain_pillow ''logo.png'' ''icons'' blocked_world)) ''logo.png'' =
     Some (opaque_image 256 256) \<and>
   fst (generate_icons plain_pillow ''logo.png'' ''icons'' thin_world) = Inl ValueError \<and>
   dirs thin_world = {} \<and>
   dirs (snd (generate_icons plain_pillow ''logo.png'' ''icons'' thin_world)) = {''icons''} \<and>
   files (snd (generate_icons plain_pillow ''logo.png'' ''icons'' thin_world)) ''icons/icon-16.png'' =
     None \<and>
   generate_icons plain_pillow ''nope.png'' ''icons'' empty_world =
     (Inl (SystemExit 1),
      print (cross_mark @ '' Source image not found: '' @ ''nope.png'') empty_world) \<and>
   generate_icons plain_pillow ''logo.png'' ''logo.png'' used_world =
     (Inl FileExistsError, used_world) \<and>
   generate_icons plain_pillow ''icons'' ''icons'' blocked_world =
     (Inl IsADirectoryError, blocked_world)"
proof -
  let ?img = "opaque_image 256 256"
  let ?run = "generate_icons plain_pillow ''logo.png'' ''icons'' blocked_world"
  have p: "icon_path ''icons'' 16 = ''icons/icon-16.png''"
    "icon_path ''icons'' 32 = ''icons/icon-32.png''"
    using icons_paths by (simp_all add: SIZES_def)
  have pre: "path_exists blocked_world ''logo.png'' \<and>
      makedirs ''icons'' blocked_world = Inr blocked_world \<and>
      image_open plain_pillow ''logo.png'' blocked_world = Inr ?img"
    by (simp add: path_exists_def makedirs_def image_open_def blocked_world_def plain_pillow_def)
  obtain sq16 sq32 where sq:
    "resize_with_padding plain_pillow ?img 16 = Inr sq16"
    "resize_with_padding plain_pillow ?img 32 = Inr sq32"
    using render_logo [of 16] render_logo [of 32] by (auto simp: SIZES_def)
  have w16: "width sq16 = 16" using sq(1) by (elim rwp_Inr) (simp add: paste_def)
  have k: "steps_done plain_pillow ?img ''icons'' (dirs blocked_world) SIZES = 1"
    by (simp add: SIZES_def steps_done_Cons step_ok_def sq p blocked_world_def)
  have s1: "SIZES ! 1 = 32" "SIZES ! Suc 0 = 32" "take (Suc 0) SIZES = [16]" "length SIZES = 6"
    by (simp_all add: SIZES_def)
  have d: "''icons'' \<in> dirs blocked_world" by (simp add: blocked_world_def)
  note T = C9_prefix_persisted [of blocked_world "''logo.png''" plain_pillow "''icons''",
      THEN conjunct2, THEN conjunct2, THEN conjunct2, rule_format, OF pre, unfolded Let_def k]
  from T
  have t: "fst ?run = Inl IsADirectoryError" "exit_code (fst ?run) = 1"
    "dirs (snd ?run) = dirs blocked_world"
    "stdout (snd ?run) = stdout blocked_world @ [check_mark @ '' Generated '' @ ''icons/icon-16.png'']"
    "files (snd ?run) ''icons/icon-16.png'' = Some (encode_png plain_pillow sq16)"
    "\<forall>p. p \<noteq> ''icons/icon-16.png'' \<longrightarrow> files (snd ?run) p = files blocked_world p"
    by (simp_all add: s1 sq p d exit_code_simps)
  let ?thin = "opaque_image 100 1"
  let ?run' = "generate_icons plain_pillow ''logo.png'' ''icons'' thin_world"
  have pre': "path_exists thin_world ''logo.png'' \<and>
      makedirs ''icons'' thin_world = Inr (thin_world\<lparr>dirs := {''icons''}\<rparr>) \<and>
      image_open plain_pillow ''logo.png'' (thin_world\<lparr>dirs := {''icons''}\<rparr>) = Inr ?thin"
    by (simp add: path_exists_def makedirs_def image_open_def thin_world_def plain_pillow_def
        ancestors_icons)
  have thin: "resize_with_padding plain_pillow ?thin 16 = Inl ValueError"
    using scaled_100_1_16
    by (simp add: resize_with_padding_def convert_rgba_def resize_def opaque_image_def)
  have k': "steps_done plain_pillow ?thin ''icons'' (dirs (thin_world\<lparr>dirs := {''icons''}\<rparr>)) SIZES = 0"
    by (simp add: SIZES_def steps_done_Cons step_ok_def thin)
  have s0: "SIZES ! 0 = 16" by (simp add: SIZES_def)
  have d': "''icons'' \<notin> dirs thin_world" by (simp add: thin_world_def)
  note T' = C9_prefix_persisted [of thin_world "''logo.png''" plain_pillow "''icons''",
      THEN conjunct2, THEN conjunct2, THEN conjunct2, rule_format, OF pre', unfolded Let_def k']
  from T'
  have t': "fst ?run' = Inl ValueError"
    "dirs (snd ?run') = dirs thin_world \<union> set (ancestors ''icons'') \<union> {''icons''}"
    "\<forall>p. files (snd ?run') p = files thin_world p"
    by (simp_all add: s0 thin d' s1 exit_code_simps)
  have a: "\<not> path_exists empty_world ''nope.png''"
    by (simp add: path_exists_def empty_world_def)
  have b: "path_exists used_world ''logo.png'' \<and>
      makedirs ''logo.png'' used_world = Inl FileExistsError"
    by (simp add: path_exists_def makedirs_def used_world_def ancestors_logo)
  have c: "path_exists blocked_world ''icons'' \<and>
      makedirs ''icons'' blocked_world = Inr blocked_world \<and>
      image_open plain_pillow ''icons'' blocked_world = Inl IsADirectoryError"
    by (simp add: path_exists_def makedirs_def image_open_def blocked_world_def)
  note A = C9_prefix_persisted [of empty_world "''nope.png''" plain_pillow "''icons''",
      THEN conjunct1, rule_format, OF a]
  note B = C9_prefix_persisted [of used_world "''logo.png''" plain_pillow "''logo.png''",
      THEN conjunct2, THEN conjunct1, rule_format, OF b, THEN conjunct1]
  note C = C9_prefix_persisted [of blocked_world "''icons''" plain_pillow "''icons''",
      THEN conjunct2, THEN conjunct2, THEN conjunct1, rule_format, OF c, THEN conjunct1]
  have first: "fst (generate_icons plain_pillow ''logo.png'' ''icons'' blocked_world) =
        Inl IsADirectoryError \<and>
      exit_code (fst (generate_icons plain_pillow ''logo.png'' ''icons'' blocked_world)) = 1 \<and>
      dirs (snd (generate_icons plain_pillow ''logo.png'' ''icons'' blocked_world)) =
        {''icons'', ''icons/icon-32.png''} \<and>
      stdout (snd (generate_icons plain_pillow ''logo.png'' ''icons'' blocked_world)) =
        [check_mark @ '' Generated icons/icon-16.png''] \<and>
      files blocked_world ''icons/icon-16.png'' = None \<and>
      map_option width
        (files (snd (generate_icons plain_pillow ''logo.png'' ''icons'' blocked_world))
           ''icons/icon-16.png'') = Some 16 \<and>
      files (snd (generate_icons plain_pillow ''logo.png'' ''icons'' blocked_world))
        ''icons/icon-48.png'' = None \<and>
      files (snd (generate_icons plain_pillow ''logo.png'' ''icons'' blocked_world)) ''logo.png'' =
        Some (opaque_image 256 256) \<and>
      fst (generate_icons plain_pillow ''logo.png'' ''icons'' thin_world) = Inl ValueError \<and>
      dirs thin_world = {} \<and>
      dirs (snd (generate_icons plain_pillow ''logo.png'' ''icons'' thin_world)) = {''icons''} \<and>
      files (snd (generate_icons plain_pillow ''logo.png'' ''icons'' thin_world))
        ''icons/icon-16.png'' = None"
    using t t' w16 by (simp add: blocked_world_def thin_world_def plain_pillow_def ancestors_icons)
  from first A B C show ?thesis
    by (elim conjE) (intro conjI; assumption)
qed

text \<open>
  C10.  When the output directory exists already, the source decodes, every size renders
  and no icon path is a directory, the run ends normally: the directories are unchanged,
  each \<open>icon-<S>.png\<close> holds the new icon whatever it held before, every other path holds what
  it held before, and the only lines printed are the six "Generated" lines and the final
  one.
\<close>

theorem C10_reuse_and_overwrite:
  assumes "out_dir \<in> dirs w"
      and "files w src_path = Some c" and "decode P c = Some img"
      and "\<forall>sz\<in>set SIZES. \<exists>sq. resize_with_padding P img sz = Inr sq"
      and "\<forall>sz\<in>set SIZES. icon_path out_dir sz \<notin> dirs w"
  shows "fst (generate_icons P src_path out_dir w) = Inr () \<and>
         dirs (snd (generate_icons P src_path out_dir w)) = dirs w \<and>
         (\<forall>sz\<in>set SIZES. \<exists>sq. resize_with_padding P img sz = Inr sq \<and>
            files (snd (generate_icons P src_path out_dir w)) (icon_path out_dir sz) =
              Some (encode_png P sq)) \<and>
         (\<forall>p. p \<notin> icon_path out_dir ` set SIZES \<longrightarrow>
            files (snd (generate_icons P src_path out_dir w)) p = files w p) \<and>
         stdout (snd (generate_icons P src_path out_dir w)) =
           stdout w @ map (\<lambda>sz. check_mark @ '' Generated '' @ icon_path out_dir sz) SIZES @
             [party_popper @ '' All icons generated successfully!'']"
proof -
  let ?loop = "icon_loop P img out_dir SIZES w"
  have e: "path_exists w src_path" using assms(2) by (auto simp: path_exists_def)
  have m: "makedirs out_dir w = Inr w" using assms(1) by (simp add: makedirs_def)
  have i: "image_open P src_path w = Inr img" using assms(2,3) by (simp add: image_open_def)
  obtain k where k: "k \<le> length SIZES"
    "fst ?loop = Inr () \<longleftrightarrow> k = length SIZES"
    "dirs (snd ?loop) = dirs w"
    "stdout (snd ?loop) =
       stdout w @ map (\<lambda>sz. check_mark @ '' Generated '' @ icon_path out_dir sz) (take k SIZES)"
    "\<And>p. p \<notin> icon_path out_dir ` set (take k SIZES) \<Longrightarrow> files (snd ?loop) p = files w p"
    "\<And>sz. sz \<in> set (take k SIZES) \<Longrightarrow>
       \<exists>sq. resize_with_padding P img sz = Inr sq \<and>
         files (snd ?loop) (icon_path out_dir sz) = Some (encode_png P sq)"
    "\<And>err. fst ?loop = Inl err \<Longrightarrow>
       resize_with_padding P img (SIZES ! k) = Inl err \<or>
       (icon_path out_dir (SIZES ! k) \<in> dirs w \<and> err = IsADirectoryError)"
    by (rule icon_loop_effect [OF distinct_icon_paths,
          where P = P and img = img and w = w and out_dir = out_dir]) blast
  have ok: "fst ?loop = Inr ()"
  proof (cases "fst ?loop")
    case (Inl err)
    then have "k < length SIZES" using k(1,2) by auto
    then have "SIZES ! k \<in> set SIZES" by simp
    with k(7) [OF Inl] assms(4,5) show ?thesis by auto
  qed simp
  then have kl: "k = length SIZES" using k(2) by simp
  have run: "generate_icons P src_path out_dir w =
      (Inr (), print (party_popper @ '' All icons generated successfully!'') (snd ?loop))"
    using ok by (cases ?loop) (simp add: generate_icons_def e m i)
  show ?thesis
    unfolding run using k(3,4,5,6) by (simp add: kl print_def)
qed

theorem C10_reuse_and_overwrite_witness:
  "fst (generate_icons plain_pillow ''logo.png'' ''icons'' used_world) = Inr () \<and>
   dirs (snd (generate_icons plain_pillow ''logo.png'' ''icons'' used_world)) = {''icons''} \<and>
   icon_path ''icons'' 16 = ''icons/icon-16.png'' \<and>
   map_option width (files used_world ''icons/icon-16.png'') = Some 1 \<and>
   map_option width
     (files (snd (generate_icons plain_pillow ''logo.png'' ''icons'' used_world))
        ''icons/icon-16.png'') = Some 16 \<and>
   files (snd (generate_icons plain_pillow ''logo.png'' ''icons'' used_world)) ''icons/notes.txt'' =
     Some (opaque_image 2 2)"
proof -
  let ?run = "generate_icons plain_pillow ''logo.png'' ''icons'' used_world"
  let ?img = "opaque_image 256 256"
  have p: "icon_path ''icons'' 16 = ''icons/icon-16.png''"
    using icons_paths by (simp add: SIZES_def)
  have h1: "''icons'' \<in> dirs used_world" by (simp add: used_world_def)
  have h2: "files used_world ''logo.png'' = Some ?img" by (simp add: used_world_def)
  have h3: "decode plain_pillow ?img = Some ?img" by (simp add: plain_pillow_def)
  have h4: "\<forall>sz\<in>set SIZES. \<exists>sq. resize_with_padding plain_pillow ?img sz = Inr sq"
    using render_logo by blast
  have "set (map (icon_path ''icons'') SIZES) \<inter> dirs used_world = {}"
    unfolding icons_paths by (simp add: used_world_def)
  then have h5: "\<forall>sz\<in>set SIZES. icon_path ''icons'' sz \<notin> dirs used_world" by auto
  note r = C10_reuse_and_overwrite [OF h1 h2 h3 h4 h5]
  have "16 \<in> set SIZES" by (simp add: SIZES_def)
  with r obtain sq where sq: "resize_with_padding plain_pillow ?img 16 = Inr sq"
    "files (snd ?run) (icon_path ''icons'' 16) = Some (encode_png plain_pillow sq)" by blast
  have "width sq = 16" using sq(1) by (elim rwp_Inr) (simp add: paste_def)
  then have a: "map_option width (files (snd ?run) ''icons/icon-16.png'') = Some 16"
    using sq(2) by (simp add: p plain_pillow_def)
  have "''icons/notes.txt'' \<notin> set (map (icon_path ''icons'') SIZES)"
    unfolding icons_paths by simp
  then have "files (snd ?run) ''icons/notes.txt'' = files used_world ''icons/notes.txt''"
    using r by auto
  with r a p show ?thesis by (simp add: used_world_def opaque_image_def)
qed

end
